theory Spec2Isabelle
  imports Main "HOL-Library.Word" "HOL-Library.Multiset" "HOL-Library.List_Lexorder"
    "HOL-Library.Char_ord"
begin

section \<open>Data of the item routes\<close>

text \<open>
  The routes of \<^verbatim>\<open>routes/api/items\<close> work on items addressed by owner and name, on
  the change log and on paginated results. \<^verbatim>\<open>Uuid\<close> is an opaque identifier; it is
  modelled as a natural number. A \<^verbatim>\<open>Buffer\<close> is a sequence of bytes.
\<close>

type_synonym Uuid = nat

type_synonym Buffer = "8 word list"

type_synonym Query = "(string \<times> string) list"

text \<open>
  Modelled from the spec: the \<^verbatim>\<open>Item\<close> interface of \<^verbatim>\<open>db.ts\<close> is not part of the
  sources at hand. The fields are those of the data model: identifier, owner, hierarchical
  name and raw content (the size is the length of the content; timestamps are left out).
\<close>

record Item =
  item_id :: Uuid
  item_owner_id :: Uuid
  item_name :: string
  item_content :: Buffer

datatype ChangeType = Create | Update | Delete

text \<open>
  Modelled from the spec: a ChangeEvent records one mutation of one item of one owner; the
  \<open>sequence\<close> is the per-owner ordering key. The opaque identifier of the event itself plays
  no role in any operation and is left out.
\<close>

record ChangeEvent =
  change_owner_id :: Uuid
  change_item_id :: Uuid
  change_item_name :: string
  change_type :: ChangeType
  change_sequence :: nat

text \<open>
  Modelled from the spec: the pagination cursor carries a position and a page size bound,
  and a page carries the items, \<open>has_more\<close> and the cursor of the following page.
\<close>

record Cursor =
  position :: nat
  limit :: nat

record 'a Page =
  items :: "'a list"
  has_more :: bool
  cursor :: Cursor

text \<open>\<^verbatim>\<open>SubPath\<close>: only the \<^verbatim>\<open>id\<close> field is read by the item routes.\<close>

record SubPath =
  path_id :: string

text \<open>
  The result of \<^verbatim>\<open>formParse\<close>: \<open>files_file_path\<close> is the path of
  \<^verbatim>\<open>parsedBody.files.file\<close> when the optional chain \<^verbatim>\<open>parsedBody?.files?.file\<close> is
  truthy.
\<close>

record ParsedBody =
  files_file_path :: "string option"

text \<open>
  The error classes of \<^verbatim>\<open>utils/errors\<close> that the routes name, a \<open>TypeError\<close> for a
  property read on \<^verbatim>\<open>null\<close>, and \<open>ErrorOther\<close> for every other failure of a collaborator.
\<close>

datatype error =
    ErrorNotFound string
  | ErrorMethodNotAllowed string
  | TypeError string
  | ErrorOther string

text \<open>\<^verbatim>\<open>error instanceof ErrorNotFound\<close>\<close>

fun instanceof_ErrorNotFound :: "error \<Rightarrow> bool" where
  "instanceof_ErrorNotFound (ErrorNotFound _) = True"
| "instanceof_ErrorNotFound _ = False"

section \<open>Asynchronous computations over the storage state\<close>

text \<open>
  An \<^verbatim>\<open>async\<close> function of the source runs against the storage state \<open>'s\<close>: it returns
  a value or throws, and leaves a state behind in both cases.
\<close>

type_synonym ('s, 'a) async = "'s \<Rightarrow> (error + 'a) \<times> 's"

definition resolve :: "'a \<Rightarrow> ('s, 'a) async" where
  "resolve x s = (Inr x, s)"

definition throw :: "error \<Rightarrow> ('s, 'a) async" where
  "throw e s = (Inl e, s)"

definition await :: "('s, 'a) async \<Rightarrow> ('a \<Rightarrow> ('s, 'b) async) \<Rightarrow> ('s, 'b) async" where
  "await m f s = (case m s of (Inl e, s') \<Rightarrow> (Inl e, s') | (Inr x, s') \<Rightarrow> f x s')"

definition try_catch :: "('s, 'a) async \<Rightarrow> (error \<Rightarrow> ('s, 'a) async) \<Rightarrow> ('s, 'a) async" where
  "try_catch m h s = (case m s of (Inl e, s') \<Rightarrow> h e s' | (Inr x, s') \<Rightarrow> (Inr x, s'))"

text \<open>A storage query reads the state and does not change it.\<close>

definition reading :: "('s \<Rightarrow> error + 'a) \<Rightarrow> ('s, 'a) async" where
  "reading q s = (q s, s)"

text \<open>A call of a function that does not touch the storage: it returns or throws.\<close>

definition attempt :: "error + 'a \<Rightarrow> ('s, 'a) async" where
  "attempt r s = (r, s)"

section \<open>Collaborators of the routes\<close>

text \<open>
  \<^verbatim>\<open>ItemModel\<close>, \<^verbatim>\<open>ChangeModel\<close> and the helper modules are imported by the routes and
  are not part of the sources at hand. The routes are modelled over any implementation of
  them: each method is a field, typed after the call the routes make (\<^verbatim>\<open>delete\<close> and
  \<^verbatim>\<open>serializedContent\<close> take the item id only).
\<close>

record ('s, 'o) ItemModel =
  pathToName :: "string \<Rightarrow> error + string"
  loadByName :: "Uuid \<Rightarrow> string \<Rightarrow> 's \<Rightarrow> error + Item option"
  delete :: "Uuid \<Rightarrow> ('s, unit) async"
  deleteAll :: "Uuid \<Rightarrow> ('s, unit) async"
  serializedContent :: "Uuid \<Rightarrow> 's \<Rightarrow> error + Buffer"
  saveFromRawContent :: "Uuid \<Rightarrow> string \<Rightarrow> Buffer \<Rightarrow> ('s, Item) async"
  toApiOutput :: "Item \<Rightarrow> 'o"
  children :: "Uuid \<Rightarrow> string \<Rightarrow> Cursor \<Rightarrow> 's \<Rightarrow> error + Item Page"

record 's ChangeModel =
  allForUser :: "Uuid \<Rightarrow> Cursor \<Rightarrow> 's \<Rightarrow> error + ChangeEvent Page"

text \<open>
  \<^verbatim>\<open>AppContext\<close>: \<open>owner_id\<close> is \<^verbatim>\<open>ctx.owner.id\<close>, \<open>models_item\<close> and
  \<open>models_change\<close> are \<^verbatim>\<open>ctx.models.item()\<close> and \<^verbatim>\<open>ctx.models.change()\<close>.
\<close>

record ('s, 'o, 'rq, 'rs) AppContext =
  owner_id :: Uuid
  env :: string
  query :: Query
  req :: 'rq
  response :: 'rs
  models_item :: "('s, 'o) ItemModel"
  models_change :: "'s ChangeModel"

text \<open>
  The functions the routes import from \<^verbatim>\<open>requestUtils\<close>, \<^verbatim>\<open>fs-extra\<close>,
  \<^verbatim>\<open>routeUtils\<close> and \<^verbatim>\<open>models/utils/pagination\<close>.
\<close>

record ('rq, 'rs, 'r) Imports =
  formParse :: "'rq \<Rightarrow> error + ParsedBody option"
  fs_readFile :: "string \<Rightarrow> error + Buffer"
  respondWithItemContent :: "'rs \<Rightarrow> Item \<Rightarrow> Buffer \<Rightarrow> 'r"
  requestChangePagination :: "Query \<Rightarrow> error + Cursor"
  requestPagination :: "Query \<Rightarrow> error + Cursor"

section \<open>The routes\<close>

text \<open>
  \<^verbatim>\<open>itemFromPath\<close>: the item is \<open>None\<close> where the source has \<^verbatim>\<open>null\<close>. The callers
  all use the default \<^verbatim>\<open>mustExists = true\<close>.
\<close>

definition itemFromPath ::
  "Uuid \<Rightarrow> ('s, 'o) ItemModel \<Rightarrow> SubPath \<Rightarrow> bool \<Rightarrow> ('s, Item option) async" where
  "itemFromPath userId itemModel path mustExists =
     await (attempt (pathToName itemModel (path_id path))) (\<lambda>name.
     await (reading (loadByName itemModel userId name)) (\<lambda>item.
     if mustExists \<and> item = None
     then throw (ErrorNotFound (''Not found: '' @ path_id path))
     else resolve item))"

text \<open>
  The callers use the result of \<^verbatim>\<open>itemFromPath\<close> as an item (\<^verbatim>\<open>item.id\<close>); on
  \<^verbatim>\<open>null\<close> that is a \<open>TypeError\<close>. With \<^verbatim>\<open>mustExists = true\<close> the result is never
  \<^verbatim>\<open>null\<close> (lemma \<open>itemFromPath_mustExists\<close>).
\<close>

definition with_item :: "Item option \<Rightarrow> (Item \<Rightarrow> ('s, 'a) async) \<Rightarrow> ('s, 'a) async" where
  "with_item item f =
     (case item of
        None \<Rightarrow> throw (TypeError ''Cannot read properties of null'')
      | Some it \<Rightarrow> f it)"

text \<open>\<^verbatim>\<open>router.get('api/items/:id')\<close>\<close>

definition get_api_items ::
  "SubPath \<Rightarrow> ('s, 'o, 'rq, 'rs) AppContext \<Rightarrow> ('s, 'o) async" where
  "get_api_items path ctx =
     (let itemModel = models_item ctx in
      await (itemFromPath (owner_id ctx) itemModel path True) (\<lambda>item.
      with_item item (\<lambda>it. resolve (toApiOutput itemModel it))))"

text \<open>\<^verbatim>\<open>router.del('api/items/:id')\<close>\<close>

definition del_api_items ::
  "SubPath \<Rightarrow> ('s, 'o, 'rq, 'rs) AppContext \<Rightarrow> ('s, unit) async" where
  "del_api_items path ctx =
     (let itemModel = models_item ctx in
      try_catch
        (if path_id path = ''root'' \<or> path_id path = ''root:/:''
         then
           (if env ctx \<noteq> ''dev''
            then throw (ErrorMethodNotAllowed ''Deleting the root is not allowed'')
            else deleteAll itemModel (owner_id ctx))
         else
           await (itemFromPath (owner_id ctx) itemModel path True) (\<lambda>item.
           with_item item (\<lambda>it. delete itemModel (item_id it))))
        (\<lambda>error.
           if instanceof_ErrorNotFound error then resolve () else throw error))"

text \<open>\<^verbatim>\<open>router.get('api/items/:id/content')\<close>\<close>

definition get_api_items_content ::
  "('rq, 'rs, 'r) Imports \<Rightarrow> SubPath \<Rightarrow> ('s, 'o, 'rq, 'rs) AppContext \<Rightarrow> ('s, 'r) async" where
  "get_api_items_content imports path ctx =
     (let itemModel = models_item ctx in
      await (itemFromPath (owner_id ctx) itemModel path True) (\<lambda>item.
      with_item item (\<lambda>it.
      await (reading (serializedContent itemModel (item_id it))) (\<lambda>serialized.
      resolve (respondWithItemContent imports (response ctx) it serialized)))))"

text \<open>\<^verbatim>\<open>router.put('api/items/:id/content')\<close>\<close>

definition put_api_items_content ::
  "('rq, 'rs, 'r) Imports \<Rightarrow> SubPath \<Rightarrow> ('s, 'o, 'rq, 'rs) AppContext \<Rightarrow> ('s, 'o) async" where
  "put_api_items_content imports path ctx =
     (let itemModel = models_item ctx in
      await (attempt (pathToName itemModel (path_id path))) (\<lambda>name.
      await (attempt (formParse imports (req ctx))) (\<lambda>parsedBody.
      await (case parsedBody of
               Some body \<Rightarrow>
                 (case files_file_path body of
                    Some file_path \<Rightarrow> attempt (fs_readFile imports file_path)
                  | None \<Rightarrow> resolve [])
             | None \<Rightarrow> resolve []) (\<lambda>buffer.
      await (saveFromRawContent itemModel (owner_id ctx) name buffer) (\<lambda>item.
      resolve (toApiOutput itemModel item))))))"

text \<open>
  \<^verbatim>\<open>router.get('api/items/:id/delta')\<close>; \<open>unused_path\<close> is the parameter \<^verbatim>\<open>_path\<close>.
\<close>

definition get_api_items_delta ::
  "('rq, 'rs, 'r) Imports \<Rightarrow> SubPath \<Rightarrow> ('s, 'o, 'rq, 'rs) AppContext
     \<Rightarrow> ('s, ChangeEvent Page) async" where
  "get_api_items_delta imports unused_path ctx =
     (let changeModel = models_change ctx in
      await (attempt (requestChangePagination imports (query ctx))) (\<lambda>pagination.
      reading (allForUser changeModel (owner_id ctx) pagination)))"

text \<open>\<^verbatim>\<open>router.get('api/items/:id/children')\<close>\<close>

definition get_api_items_children ::
  "('rq, 'rs, 'r) Imports \<Rightarrow> SubPath \<Rightarrow> ('s, 'o, 'rq, 'rs) AppContext
     \<Rightarrow> ('s, Item Page) async" where
  "get_api_items_children imports path ctx =
     (let itemModel = models_item ctx in
      await (attempt (pathToName itemModel (path_id path))) (\<lambda>parentName.
      await (attempt (requestPagination imports (query ctx))) (\<lambda>pagination.
      await (reading (children itemModel (owner_id ctx) parentName pagination)) (\<lambda>result.
      resolve result))))"

text \<open>
  The router registers one handler for each method and route. A request names the route;
  the response wraps what the handler returns.
\<close>

datatype Route =
    GET_item
  | DEL_item
  | GET_item_content
  | PUT_item_content
  | GET_item_delta
  | GET_item_children

datatype ('o, 'r) Response =
    ItemOutput 'o
  | NoContent
  | ItemContent 'r
  | PaginatedChanges "ChangeEvent Page"
  | PaginatedItems "Item Page"

definition execRequest ::
  "('rq, 'rs, 'r) Imports \<Rightarrow> Route \<Rightarrow> SubPath \<Rightarrow> ('s, 'o, 'rq, 'rs) AppContext
     \<Rightarrow> ('s, ('o, 'r) Response) async" where
  "execRequest imports route path ctx =
     (case route of
        GET_item \<Rightarrow> await (get_api_items path ctx) (\<lambda>x. resolve (ItemOutput x))
      | DEL_item \<Rightarrow> await (del_api_items path ctx) (\<lambda>_. resolve NoContent)
      | GET_item_content \<Rightarrow>
          await (get_api_items_content imports path ctx) (\<lambda>x. resolve (ItemContent x))
      | PUT_item_content \<Rightarrow>
          await (put_api_items_content imports path ctx) (\<lambda>x. resolve (ItemOutput x))
      | GET_item_delta \<Rightarrow>
          await (get_api_items_delta imports path ctx) (\<lambda>x. resolve (PaginatedChanges x))
      | GET_item_children \<Rightarrow>
          await (get_api_items_children imports path ctx) (\<lambda>x. resolve (PaginatedItems x)))"

section \<open>The item store and the change log\<close>

text \<open>
  Modelled from the spec: \<^verbatim>\<open>ItemModel\<close> and \<^verbatim>\<open>ChangeModel\<close> are missing from the
  sources at hand. The storage state holds the items and the append-only change log, for
  all owners.
\<close>

record Store =
  items_table :: "Item list"
  changes_table :: "ChangeEvent list"

definition items_of :: "Uuid \<Rightarrow> Store \<Rightarrow> Item list" where
  "items_of ownerId s = filter (\<lambda>i. item_owner_id i = ownerId) (items_table s)"

definition changes_of :: "Uuid \<Rightarrow> Store \<Rightarrow> ChangeEvent list" where
  "changes_of ownerId s = filter (\<lambda>c. change_owner_id c = ownerId) (changes_table s)"

text \<open>
  Modelled from the spec: \<^verbatim>\<open>append(ownerId, itemId, itemName, type)\<close> assigns the next
  per-owner sequence number, one more than the greatest the owner has (0 when none).
\<close>

definition next_sequence :: "Uuid \<Rightarrow> Store \<Rightarrow> nat" where
  "next_sequence ownerId s = Suc (fold max (map change_sequence (changes_of ownerId s)) 0)"

definition ChangeLog_append :: "Uuid \<Rightarrow> Uuid \<Rightarrow> string \<Rightarrow> ChangeType \<Rightarrow> Store \<Rightarrow> Store" where
  "ChangeLog_append ownerId itemId itemName ty s =
     s\<lparr>changes_table := changes_table s @
         [\<lparr>change_owner_id = ownerId, change_item_id = itemId, change_item_name = itemName,
           change_type = ty, change_sequence = next_sequence ownerId s\<rparr>]\<rparr>"

text \<open>
  Modelled from the spec: \<^verbatim>\<open>pageSince(ownerId, cursor)\<close> returns the events with
  \<open>sequence > cursor.position\<close>, by ascending sequence, up to \<open>cursor.limit\<close> entries;
  \<open>has_more\<close> says that more events exist beyond the page; the cursor of the following
  page holds the last sequence seen.
\<close>

definition ChangeLog_pageSince :: "Uuid \<Rightarrow> Cursor \<Rightarrow> Store \<Rightarrow> ChangeEvent Page" where
  "ChangeLog_pageSince ownerId cur s =
     (let evs = sort_key change_sequence
                  (filter (\<lambda>c. position cur < change_sequence c) (changes_of ownerId s));
          page = take (limit cur) evs
      in \<lparr>items = page,
          has_more = (limit cur < length evs),
          cursor = \<lparr>position = (if page = [] then position cur
                                 else change_sequence (last page)),
                    limit = limit cur\<rparr>\<rparr>)"

text \<open>Modelled from the spec: \<^verbatim>\<open>loadByName(ownerId, name)\<close>; \<open>None\<close> is "not found".\<close>

definition Store_loadByName :: "Uuid \<Rightarrow> string \<Rightarrow> Store \<Rightarrow> Item option" where
  "Store_loadByName ownerId name s =
     find (\<lambda>i. item_owner_id i = ownerId \<and> item_name i = name) (items_table s)"

text \<open>
  Modelled from the spec: \<^verbatim>\<open>saveContent(ownerId, name, bytes)\<close> creates the item when
  absent and replaces the content when present, and appends one ChangeEvent (\<open>Create\<close> or
  \<open>Update\<close>) in the same step. \<open>uuid\<close> is the identifier drawn for a new item.
\<close>

definition Store_saveContent :: "Uuid \<Rightarrow> Uuid \<Rightarrow> string \<Rightarrow> Buffer \<Rightarrow> Store \<Rightarrow> Item \<times> Store" where
  "Store_saveContent uuid ownerId name bytes s =
     (case Store_loadByName ownerId name s of
        None \<Rightarrow>
          (let item = \<lparr>item_id = uuid, item_owner_id = ownerId, item_name = name,
                       item_content = bytes\<rparr>
           in (item, ChangeLog_append ownerId uuid name Create
                       (s\<lparr>items_table := items_table s @ [item]\<rparr>)))
      | Some old \<Rightarrow>
          (let item = old\<lparr>item_content := bytes\<rparr>
           in (item, ChangeLog_append ownerId (item_id old) name Update
                       (s\<lparr>items_table :=
                            map (\<lambda>i. if item_owner_id i = ownerId \<and> item_name i = name
                                      then i\<lparr>item_content := bytes\<rparr> else i)
                              (items_table s)\<rparr>))))"

text \<open>
  Modelled from the spec: \<^verbatim>\<open>readContent\<close> fails with \<open>NotFound\<close> when the item does
  not exist. The route passes the item id only.
\<close>

definition Store_readContent :: "Uuid \<Rightarrow> Store \<Rightarrow> error + Buffer" where
  "Store_readContent itemId s =
     (case find (\<lambda>i. item_id i = itemId) (items_table s) of
        None \<Rightarrow> Inl (ErrorNotFound ''Not found'')
      | Some item \<Rightarrow> Inr (item_content item))"

text \<open>
  Modelled from the spec: \<^verbatim>\<open>delete\<close> is a no-op when the item is absent and appends
  one \<open>Delete\<close> ChangeEvent only when an item existed. The route passes the item id only.
\<close>

definition Store_delete :: "Uuid \<Rightarrow> Store \<Rightarrow> Store" where
  "Store_delete itemId s =
     (case find (\<lambda>i. item_id i = itemId) (items_table s) of
        None \<Rightarrow> s
      | Some item \<Rightarrow>
          ChangeLog_append (item_owner_id item) itemId (item_name item) Delete
            (s\<lparr>items_table := filter (\<lambda>i. item_id i \<noteq> itemId) (items_table s)\<rparr>))"

text \<open>
  Modelled from the spec: \<^verbatim>\<open>deleteAll(ownerId)\<close> destroys every item of the owner,
  unconditionally; each destroyed item gets its \<open>Delete\<close> ChangeEvent.
\<close>

definition Store_deleteAll :: "Uuid \<Rightarrow> Store \<Rightarrow> Store" where
  "Store_deleteAll ownerId s =
     fold (\<lambda>item acc. Store_delete (item_id item) acc) (items_of ownerId s) s"

text \<open>
  Modelled from the spec: \<^verbatim>\<open>listChildren(ownerId, parentName, cursor)\<close> returns the
  items whose name is a direct descendant of \<open>parentName\<close>, ordered by name, a page at a
  time: the position of the cursor counts the entries already seen. The spec does not say
  which names are direct descendants of a name; the relation is the parameter
  \<open>directDescendant\<close>.
\<close>

definition Store_listChildren ::
  "(string \<Rightarrow> string \<Rightarrow> bool) \<Rightarrow> Uuid \<Rightarrow> string \<Rightarrow> Cursor \<Rightarrow> Store \<Rightarrow> Item Page" where
  "Store_listChildren directDescendant ownerId parentName cur s =
     (let rest = drop (position cur)
                   (sort_key item_name
                      (filter (\<lambda>i. directDescendant parentName (item_name i))
                         (items_of ownerId s)));
          page = take (limit cur) rest
      in \<lparr>items = page,
          has_more = (limit cur < length rest),
          cursor = \<lparr>position = position cur + length page, limit = limit cur\<rparr>\<rparr>)"

text \<open>
  The two models over the store. Path resolution and the API representation are not
  described by the spec beyond their types; they are the parameters \<open>resolvePath\<close> and
  \<open>apiOutput\<close>.
\<close>

definition Store_ItemModel ::
  "(string \<Rightarrow> error + string) \<Rightarrow> (Item \<Rightarrow> 'o) \<Rightarrow> (string \<Rightarrow> string \<Rightarrow> bool) \<Rightarrow> Uuid
     \<Rightarrow> (Store, 'o) ItemModel" where
  "Store_ItemModel resolvePath apiOutput directDescendant uuid =
     \<lparr>pathToName = resolvePath,
      loadByName = (\<lambda>ownerId name s. Inr (Store_loadByName ownerId name s)),
      delete = (\<lambda>itemId s. (Inr (), Store_delete itemId s)),
      deleteAll = (\<lambda>ownerId s. (Inr (), Store_deleteAll ownerId s)),
      serializedContent = Store_readContent,
      saveFromRawContent = (\<lambda>ownerId name bytes s.
         (case Store_saveContent uuid ownerId name bytes s of (item, s') \<Rightarrow> (Inr item, s'))),
      toApiOutput = apiOutput,
      children = (\<lambda>ownerId parentName cur s.
         Inr (Store_listChildren directDescendant ownerId parentName cur s))\<rparr>"

definition Store_ChangeModel :: "Store ChangeModel" where
  "Store_ChangeModel =
     \<lparr>allForUser = (\<lambda>ownerId cur s. Inr (ChangeLog_pageSince ownerId cur s))\<rparr>"

text \<open>
  A client that replays a paginated listing: it fetches the page at the cursor, and goes
  on from the cursor the page carries while \<open>has_more\<close> is set. The fuel bounds the
  number of requests; \<open>None\<close> says that the fuel ran out before the last page.
\<close>

fun paginate :: "nat \<Rightarrow> (Cursor \<Rightarrow> error + 'a Page) \<Rightarrow> Cursor \<Rightarrow> (error + 'a list) option" where
  "paginate 0 fetch cur = None"
| "paginate (Suc fuel) fetch cur =
     (case fetch cur of
        Inl e \<Rightarrow> Some (Inl e)
      | Inr page \<Rightarrow>
          if has_more page
          then (case paginate fuel fetch (cursor page) of
                  None \<Rightarrow> None
                | Some (Inl e) \<Rightarrow> Some (Inl e)
                | Some (Inr rest) \<Rightarrow> Some (Inr (items page @ rest)))
          else Some (Inr (items page)))"





text \<open>Item identifiers are unique in a well-formed store.\<close>

definition unique_ids :: "Store \<Rightarrow> bool" where
  "unique_ids s = distinct (map item_id (items_table s))"

text \<open>What belongs to one owner: the owner's items and the owner's ChangeEvents.\<close>

definition owner_view :: "Uuid \<Rightarrow> Store \<Rightarrow> Item list \<times> ChangeEvent list" where
  "owner_view ownerId s = (items_of ownerId s, changes_of ownerId s)"

text \<open>
  The sequence numbers of an owner are gapless when they count up from 1 in the order of
  the log.
\<close>

definition gapless :: "Uuid \<Rightarrow> Store \<Rightarrow> bool" where
  "gapless ownerId s =
     (map change_sequence (changes_of ownerId s) = [1..<Suc (length (changes_of ownerId s))])"

text \<open>
  The page at a cursor as a window into an ordered listing: the position counts the
  entries before the page.
\<close>

definition window :: "'a list \<Rightarrow> Cursor \<Rightarrow> 'a Page" where
  "window xs cur =
     \<lparr>items = take (limit cur) (drop (position cur) xs),
      has_more = (limit cur < length xs - position cur),
      cursor = \<lparr>position = position cur + length (take (limit cur) (drop (position cur) xs)),
                limit = limit cur\<rparr>\<rparr>"

text \<open>The item that a content write leaves under the name.\<close>

definition saved_item :: "Uuid \<Rightarrow> Uuid \<Rightarrow> string \<Rightarrow> Buffer \<Rightarrow> Store \<Rightarrow> Item" where
  "saved_item uuid ownerId name bytes s =
     (case Store_loadByName ownerId name s of
        None \<Rightarrow> \<lparr>item_id = uuid, item_owner_id = ownerId, item_name = name,
                  item_content = bytes\<rparr>
      | Some old \<Rightarrow> old\<lparr>item_content := bytes\<rparr>)"

text \<open>Every item with the identifier \<open>iid\<close> belongs to the owner \<open>u\<close>.\<close>

definition owned_id :: "Uuid \<Rightarrow> Uuid \<Rightarrow> Store \<Rightarrow> bool" where
  "owned_id u iid s = (\<forall>i \<in> set (items_table s). item_id i = iid \<longrightarrow> item_owner_id i = u)"

text \<open>
  Two implementations of the models agree on the calls scoped to the owner \<open>u\<close>: on the
  pure helpers, on every method called with \<open>u\<close>, and, in the state \<open>s\<close>, on
  \<^verbatim>\<open>delete\<close> and \<^verbatim>\<open>serializedContent\<close> for the identifier of any item that
  \<^verbatim>\<open>loadByName\<close> returns for \<open>u\<close>.
\<close>

definition scoped_agree ::
  "Uuid \<Rightarrow> 's \<Rightarrow> ('s, 'o) ItemModel \<Rightarrow> ('s, 'o) ItemModel \<Rightarrow> 's ChangeModel \<Rightarrow> 's ChangeModel
     \<Rightarrow> bool" where
  "scoped_agree u s im im' cm cm' =
     (pathToName im' = pathToName im \<and> toApiOutput im' = toApiOutput im
      \<and> loadByName im' u = loadByName im u
      \<and> deleteAll im' u = deleteAll im u
      \<and> saveFromRawContent im' u = saveFromRawContent im u
      \<and> children im' u = children im u
      \<and> allForUser cm' u = allForUser cm u
      \<and> (\<forall>name item. loadByName im u name s = Inr (Some item) \<longrightarrow>
             delete im' (item_id item) s = delete im (item_id item) s
           \<and> serializedContent im' (item_id item) s = serializedContent im (item_id item) s))"

text \<open>A request fails with "not found" when it throws an \<^verbatim>\<open>ErrorNotFound\<close>.\<close>

definition failsWithNotFound :: "(error + 'a) \<times> 's \<Rightarrow> bool" where
  "failsWithNotFound r = (case fst r of Inl e \<Rightarrow> instanceof_ErrorNotFound e | Inr _ \<Rightarrow> False)"

section \<open>A small store with two owners\<close>

text \<open>
  Owner 1 has the item \<open>notes/x\<close> and owner 2 has the item \<open>notes/y\<close>; paths resolve
  to themselves, the API representation is the item, and a name is a direct descendant of
  a parent when it is the parent, a slash and one more segment.
\<close>

definition example_store :: Store where
  "example_store =
     \<lparr>items_table =
        [\<lparr>item_id = 10, item_owner_id = 1, item_name = ''notes/x'', item_content = [97]\<rparr>,
         \<lparr>item_id = 11, item_owner_id = 2, item_name = ''notes/y'', item_content = [98]\<rparr>],
      changes_table =
        [\<lparr>change_owner_id = 1, change_item_id = 10, change_item_name = ''notes/x'',
          change_type = Create, change_sequence = 1\<rparr>,
         \<lparr>change_owner_id = 2, change_item_id = 11, change_item_name = ''notes/y'',
          change_type = Create, change_sequence = 1\<rparr>]\<rparr>"

definition example_ItemModel :: "(Store, Item) ItemModel" where
  "example_ItemModel =
     Store_ItemModel Inr (\<lambda>item. item)
       (\<lambda>parent name. take (Suc (length parent)) name = parent @ ''/''
           \<and> CHR ''/'' \<notin> set (drop (Suc (length parent)) name)) 12"

definition example_ctx :: "string \<Rightarrow> (Store, Item, unit, unit) AppContext" where
  "example_ctx e =
     \<lparr>owner_id = 1, env = e, query = [], req = (), response = (),
      models_item = example_ItemModel, models_change = Store_ChangeModel\<rparr>"

definition example_imports :: "(unit, unit, Buffer) Imports" where
  "example_imports =
     \<lparr>formParse = (\<lambda>_. Inr (Some \<lparr>files_file_path = Some ''/tmp/upload_1''\<rparr>)),
      fs_readFile = (\<lambda>file_path. if file_path = ''/tmp/upload_1'' then Inr [98]
                                  else Inl (ErrorOther ''ENOENT'')),
      respondWithItemContent = (\<lambda>_ _ content. content),
      requestChangePagination = (\<lambda>_. Inr \<lparr>position = 0, limit = 10\<rparr>),
      requestPagination = (\<lambda>_. Inr \<lparr>position = 0, limit = 10\<rparr>)\<rparr>"

text \<open>
  A second store that agrees with the first on what owner 1 has and differs on what owner
  2 has.
\<close>

definition example_store_other :: Store where
  "example_store_other =
     \<lparr>items_table =
        [\<lparr>item_id = 10, item_owner_id = 1, item_name = ''notes/x'', item_content = [97]\<rparr>,
         \<lparr>item_id = 13, item_owner_id = 2, item_name = ''notes/x'', item_content = [99]\<rparr>],
      changes_table =
        [\<lparr>change_owner_id = 2, change_item_id = 11, change_item_name = ''notes/y'',
          change_type = Create, change_sequence = 1\<rparr>,
         \<lparr>change_owner_id = 1, change_item_id = 10, change_item_name = ''notes/x'',
          change_type = Create, change_sequence = 1\<rparr>,
         \<lparr>change_owner_id = 2, change_item_id = 11, change_item_name = ''notes/y'',
          change_type = Delete, change_sequence = 2\<rparr>,
         \<lparr>change_owner_id = 2, change_item_id = 13, change_item_name = ''notes/x'',
          change_type = Create, change_sequence = 3\<rparr>]\<rparr>"

text \<open>A store in which owner 1 has items at several levels of the hierarchy.\<close>

definition example_notebook :: Store where
  "example_notebook =
     \<lparr>items_table =
        [\<lparr>item_id = 20, item_owner_id = 1, item_name = ''notes/b'', item_content = [1]\<rparr>,
         \<lparr>item_id = 21, item_owner_id = 2, item_name = ''notes/z'', item_content = [2]\<rparr>,
         \<lparr>item_id = 22, item_owner_id = 1, item_name = ''notes/a'', item_content = [3]\<rparr>,
         \<lparr>item_id = 23, item_owner_id = 1, item_name = ''notes/sub/c'', item_content = [4]\<rparr>,
         \<lparr>item_id = 24, item_owner_id = 1, item_name = ''other/x'', item_content = [5]\<rparr>],
      changes_table = []\<rparr>"




section \<open>The routes over any implementation of the models\<close>

lemma itemFromPath_eq:
  "itemFromPath userId itemModel path mustExists s =
     (case pathToName itemModel (path_id path) of
        Inl e \<Rightarrow> (Inl e, s)
      | Inr name \<Rightarrow>
          (case loadByName itemModel userId name s of
             Inl e \<Rightarrow> (Inl e, s)
           | Inr item \<Rightarrow>
               if mustExists \<and> item = None
               then (Inl (ErrorNotFound (''Not found: '' @ path_id path)), s)
               else (Inr item, s)))"
  by (simp add: itemFromPath_def await_def attempt_def reading_def throw_def resolve_def
      split: sum.splits)

lemma itemFromPath_mustExists:
  "itemFromPath userId itemModel path True s \<noteq> (Inr None, s')"
  by (simp add: itemFromPath_eq split: sum.splits)

lemmas example_simps =
  example_ctx_def example_ItemModel_def Store_ItemModel_def example_store_def
  Store_loadByName_def Store_readContent_def example_imports_def

lemma example_models:
  "models_item (example_ctx e) =
      Store_ItemModel Inr (\<lambda>item. item)
       (\<lambda>parent name. take (Suc (length parent)) name = parent @ ''/''
           \<and> CHR ''/'' \<notin> set (drop (Suc (length parent)) name)) 12"
  "models_change (example_ctx e) = Store_ChangeModel"
  "owner_id (example_ctx e) = 1"
  by (simp_all add: example_ctx_def example_ItemModel_def)

text \<open>
  C2: outside the \<open>dev\<close> environment, a DELETE of the literal id \<open>root\<close> or \<open>root:/:\<close>
  throws \<^verbatim>\<open>ErrorMethodNotAllowed\<close> (status 405) and leaves the storage state, hence
  every item and every ChangeEvent, exactly as it was. This holds over any implementation
  of the models: no method of them is called.
\<close>

theorem del_root_refused:
  assumes "env ctx \<noteq> ''dev''"
    and "path_id path = ''root'' \<or> path_id path = ''root:/:''"
  shows "del_api_items path ctx s =
           (Inl (ErrorMethodNotAllowed ''Deleting the root is not allowed''), s)"
  using assms by (auto simp add: del_api_items_def try_catch_def throw_def Let_def)

theorem del_root_refused_witness:
  "env (example_ctx ''prod'') \<noteq> ''dev'' \<and> path_id \<lparr>path_id = ''root:/:''\<rparr> = ''root:/:''
   \<and> del_api_items \<lparr>path_id = ''root:/:''\<rparr> (example_ctx ''prod'') example_store =
       (Inl (ErrorMethodNotAllowed ''Deleting the root is not allowed''), example_store)"
  using del_root_refused [of "example_ctx ''prod''" "\<lparr>path_id = ''root:/:''\<rparr>" example_store]
  by (simp add: example_ctx_def)

text \<open>
  C3: for an id other than \<open>root\<close> and \<open>root:/:\<close> that resolves to a name under which
  the caller has no item, DELETE returns without an error and leaves the storage state
  unchanged, so no ChangeEvent is emitted; a second DELETE on the state the first one left
  gives the same result.
\<close>

theorem del_absent_noop:
  assumes "path_id path \<noteq> ''root''" and "path_id path \<noteq> ''root:/:''"
    and "pathToName (models_item ctx) (path_id path) = Inr name"
    and "loadByName (models_item ctx) (owner_id ctx) name s = Inr None"
  shows "del_api_items path ctx s = (Inr (), s)
         \<and> del_api_items path ctx (snd (del_api_items path ctx s)) = del_api_items path ctx s"
proof -
  have "del_api_items path ctx s = (Inr (), s)"
    using assms
    by (simp add: del_api_items_def try_catch_def await_def itemFromPath_eq resolve_def Let_def)
  then show ?thesis by simp
qed

theorem del_absent_noop_witness:
  "del_api_items \<lparr>path_id = ''notes/none''\<rparr> (example_ctx ''prod'') example_store
     = (Inr (), example_store)
   \<and> del_api_items \<lparr>path_id = ''notes/none''\<rparr> (example_ctx ''prod'')
       (snd (del_api_items \<lparr>path_id = ''notes/none''\<rparr> (example_ctx ''prod'') example_store))
     = del_api_items \<lparr>path_id = ''notes/none''\<rparr> (example_ctx ''prod'') example_store"
  using del_absent_noop [of "\<lparr>path_id = ''notes/none''\<rparr>" "example_ctx ''prod''"
      "''notes/none''" example_store]
  by (simp add: example_simps)

text \<open>
  C5: when the path resolves to a name and the lookup by owner and name returns, GET of
  the metadata and GET of the content fail with "not found" exactly when the lookup found
  no item; when it found one (and the bytes stored for it are \<open>bytes\<close>), the metadata GET
  returns its API representation and the content GET responds with these bytes.
\<close>

theorem get_item_NotFound_iff:
  assumes "pathToName (models_item ctx) (path_id path) = Inr name"
    and "loadByName (models_item ctx) (owner_id ctx) name s = Inr found"
    and "case found of None \<Rightarrow> True
         | Some item \<Rightarrow> serializedContent (models_item ctx) (item_id item) s = Inr bytes"
  shows "(failsWithNotFound (get_api_items path ctx s) \<longleftrightarrow> found = None)
       \<and> (failsWithNotFound (get_api_items_content imports path ctx s) \<longleftrightarrow> found = None)
       \<and> (\<forall>item. found = Some item \<longrightarrow>
            get_api_items path ctx s = (Inr (toApiOutput (models_item ctx) item), s)
          \<and> get_api_items_content imports path ctx s =
              (Inr (respondWithItemContent imports (response ctx) item bytes), s))"
  using assms
  by (cases found)
    (simp_all add: get_api_items_def get_api_items_content_def failsWithNotFound_def
      await_def itemFromPath_eq resolve_def reading_def with_item_def Let_def)

theorem get_item_NotFound_iff_witness:
  "get_api_items \<lparr>path_id = ''notes/x''\<rparr> (example_ctx ''prod'') example_store
     = (Inr \<lparr>item_id = 10, item_owner_id = 1, item_name = ''notes/x'', item_content = [97]\<rparr>,
        example_store)
   \<and> get_api_items_content example_imports \<lparr>path_id = ''notes/x''\<rparr> (example_ctx ''prod'')
       example_store = (Inr [97], example_store)
   \<and> failsWithNotFound
       (get_api_items \<lparr>path_id = ''notes/y''\<rparr> (example_ctx ''prod'') example_store)
   \<and> failsWithNotFound
       (get_api_items_content example_imports \<lparr>path_id = ''notes/y''\<rparr> (example_ctx ''prod'')
          example_store)"
  using
    get_item_NotFound_iff [of "example_ctx ''prod''" "\<lparr>path_id = ''notes/x''\<rparr>" "''notes/x''"
      example_store
      "Some \<lparr>item_id = 10, item_owner_id = 1, item_name = ''notes/x'', item_content = [97]\<rparr>"
      "[97]" example_imports]
    get_item_NotFound_iff [of "example_ctx ''prod''" "\<lparr>path_id = ''notes/y''\<rparr>" "''notes/y''"
      example_store None "[]" example_imports]
  by (simp add: example_simps)

text \<open>
  C9: the result of the delta handler depends only on the caller's owner id and the
  pagination query (and on the change model and the storage state it reads): for any two
  paths and any two contexts with the same owner id, query and change model, whatever
  their environment, request, response and item model, the handler returns the same
  result. It is the page that \<^verbatim>\<open>allForUser\<close> returns for the owner id and the parsed
  pagination, or the error of the parser, and the storage state is left as it is.
\<close>

theorem delta_depends_on_owner_and_query:
  assumes "owner_id ctx1 = owner_id ctx2" and "query ctx1 = query ctx2"
    and "models_change ctx1 = models_change ctx2"
    and "requestChangePagination imports1 = requestChangePagination imports2"
  shows "get_api_items_delta imports1 path1 ctx1 s = get_api_items_delta imports2 path2 ctx2 s
       \<and> get_api_items_delta imports1 path1 ctx1 s =
           (case requestChangePagination imports1 (query ctx1) of
              Inl e \<Rightarrow> (Inl e, s)
            | Inr pagination \<Rightarrow>
                (allForUser (models_change ctx1) (owner_id ctx1) pagination s, s))"
  using assms
  by (simp add: get_api_items_delta_def await_def attempt_def reading_def Let_def
      split: sum.splits)

theorem delta_depends_on_owner_and_query_witness:
  "get_api_items_delta example_imports \<lparr>path_id = ''notes/x''\<rparr> (example_ctx ''prod'')
     example_store
   = get_api_items_delta
       (example_imports\<lparr>respondWithItemContent := (\<lambda>_ _ _. [])\<rparr>)
       \<lparr>path_id = ''root''\<rparr>
       ((example_ctx ''dev'')\<lparr>models_item :=
          example_ItemModel\<lparr>delete := (\<lambda>_. throw (ErrorNotFound ''gone''))\<rparr>\<rparr>)
       example_store
   \<and> get_api_items_delta example_imports \<lparr>path_id = ''notes/x''\<rparr> (example_ctx ''prod'')
       example_store
     = (Inr \<lparr>items = [\<lparr>change_owner_id = 1, change_item_id = 10,
                        change_item_name = ''notes/x'', change_type = Create,
                        change_sequence = 1\<rparr>],
             has_more = False,
             cursor = \<lparr>position = 1, limit = 10\<rparr>\<rparr>, example_store)"
proof -
  let ?ctx2 = "(example_ctx ''dev'')\<lparr>models_item :=
          example_ItemModel\<lparr>delete := (\<lambda>_. throw (ErrorNotFound ''gone''))\<rparr>\<rparr>"
  let ?imports2 = "example_imports\<lparr>respondWithItemContent := (\<lambda>_ _ _. [])\<rparr>"
  have h: "owner_id (example_ctx ''prod'') = owner_id ?ctx2"
    "query (example_ctx ''prod'') = query ?ctx2"
    "models_change (example_ctx ''prod'') = models_change ?ctx2"
    "requestChangePagination example_imports = requestChangePagination ?imports2"
    by (simp_all add: example_ctx_def)
  have page: "allForUser (models_change (example_ctx ''prod'')) (owner_id (example_ctx ''prod''))
               \<lparr>position = 0, limit = 10\<rparr> example_store
      = Inr \<lparr>items = [\<lparr>change_owner_id = 1, change_item_id = 10,
                        change_item_name = ''notes/x'', change_type = Create,
                        change_sequence = 1\<rparr>],
             has_more = False,
             cursor = \<lparr>position = 1, limit = 10\<rparr>\<rparr>"
    by (simp add: example_models Store_ChangeModel_def ChangeLog_pageSince_def changes_of_def
        example_store_def)
  have parse: "requestChangePagination example_imports (query (example_ctx ''prod''))
      = Inr \<lparr>position = 0, limit = 10\<rparr>"
    by (simp add: example_imports_def)
  note r = delta_depends_on_owner_and_query [OF h,
        where ?path1.0 = "\<lparr>path_id = ''notes/x''\<rparr>" and ?path2.0 = "\<lparr>path_id = ''root''\<rparr>"
          and s = example_store]
  have "get_api_items_delta example_imports \<lparr>path_id = ''notes/x''\<rparr> (example_ctx ''prod'')
          example_store
        = (allForUser (models_change (example_ctx ''prod'')) (owner_id (example_ctx ''prod''))
             \<lparr>position = 0, limit = 10\<rparr> example_store, example_store)"
    using r [THEN conjunct2] by (simp add: parse)
  with r [THEN conjunct1] show ?thesis
    by (simp only: page simp_thms)
qed

text \<open>
  C10: in the DELETE handler, an \<^verbatim>\<open>ErrorNotFound\<close> thrown by the path resolution, by
  the lookup (or because the lookup found nothing), by \<^verbatim>\<open>delete\<close> or by
  \<^verbatim>\<open>deleteAll\<close> is caught and the request completes; any other error \<open>e\<close> thrown there
  is thrown again unchanged, and so is the \<^verbatim>\<open>ErrorMethodNotAllowed\<close> of the environment
  gate.
\<close>

theorem del_catches_only_NotFound:
  "(path_id path \<noteq> ''root'' \<and> path_id path \<noteq> ''root:/:''
      \<and> pathToName (models_item ctx) (path_id path) = Inl e
    \<longrightarrow> del_api_items path ctx s = (if instanceof_ErrorNotFound e then Inr () else Inl e, s))
   \<and> (path_id path \<noteq> ''root'' \<and> path_id path \<noteq> ''root:/:''
      \<and> pathToName (models_item ctx) (path_id path) = Inr name
      \<and> loadByName (models_item ctx) (owner_id ctx) name s = Inl e
    \<longrightarrow> del_api_items path ctx s = (if instanceof_ErrorNotFound e then Inr () else Inl e, s))
   \<and> (path_id path \<noteq> ''root'' \<and> path_id path \<noteq> ''root:/:''
      \<and> pathToName (models_item ctx) (path_id path) = Inr name
      \<and> loadByName (models_item ctx) (owner_id ctx) name s = Inr None
    \<longrightarrow> del_api_items path ctx s = (Inr (), s))
   \<and> (path_id path \<noteq> ''root'' \<and> path_id path \<noteq> ''root:/:''
      \<and> pathToName (models_item ctx) (path_id path) = Inr name
      \<and> loadByName (models_item ctx) (owner_id ctx) name s = Inr (Some item)
      \<and> delete (models_item ctx) (item_id item) s = (Inl e, s')
    \<longrightarrow> del_api_items path ctx s = (if instanceof_ErrorNotFound e then Inr () else Inl e, s'))
   \<and> ((path_id path = ''root'' \<or> path_id path = ''root:/:'') \<and> env ctx = ''dev''
      \<and> deleteAll (models_item ctx) (owner_id ctx) s = (Inl e, s')
    \<longrightarrow> del_api_items path ctx s = (if instanceof_ErrorNotFound e then Inr () else Inl e, s'))
   \<and> ((path_id path = ''root'' \<or> path_id path = ''root:/:'') \<and> env ctx \<noteq> ''dev''
    \<longrightarrow> del_api_items path ctx s =
          (Inl (ErrorMethodNotAllowed ''Deleting the root is not allowed''), s))"
  by (auto simp add: del_api_items_def try_catch_def await_def itemFromPath_eq resolve_def
      throw_def with_item_def Let_def)

theorem del_catches_only_NotFound_witness:
  "del_api_items \<lparr>path_id = ''notes/x''\<rparr>
     ((example_ctx ''prod'')\<lparr>models_item :=
        example_ItemModel\<lparr>delete := (\<lambda>_. throw (ErrorNotFound ''gone''))\<rparr>\<rparr>) example_store
     = (Inr (), example_store)
   \<and> del_api_items \<lparr>path_id = ''notes/x''\<rparr>
     ((example_ctx ''prod'')\<lparr>models_item :=
        example_ItemModel\<lparr>delete := (\<lambda>_. throw (ErrorOther ''database is locked''))\<rparr>\<rparr>)
     example_store
     = (Inl (ErrorOther ''database is locked''), example_store)
   \<and> del_api_items \<lparr>path_id = ''root''\<rparr> (example_ctx ''prod'') example_store
     = (Inl (ErrorMethodNotAllowed ''Deleting the root is not allowed''), example_store)"
  using
    del_catches_only_NotFound [of "\<lparr>path_id = ''notes/x''\<rparr>"
      "(example_ctx ''prod'')\<lparr>models_item :=
         example_ItemModel\<lparr>delete := (\<lambda>_. throw (ErrorNotFound ''gone''))\<rparr>\<rparr>"
      "ErrorNotFound ''gone''" example_store "''notes/x''"
      "\<lparr>item_id = 10, item_owner_id = 1, item_name = ''notes/x'', item_content = [97]\<rparr>"
      example_store]
    del_catches_only_NotFound [of "\<lparr>path_id = ''notes/x''\<rparr>"
      "(example_ctx ''prod'')\<lparr>models_item :=
         example_ItemModel\<lparr>delete := (\<lambda>_. throw (ErrorOther ''database is locked''))\<rparr>\<rparr>"
      "ErrorOther ''database is locked''" example_store "''notes/x''"
      "\<lparr>item_id = 10, item_owner_id = 1, item_name = ''notes/x'', item_content = [97]\<rparr>"
      example_store]
    del_catches_only_NotFound [of "\<lparr>path_id = ''root''\<rparr>" "example_ctx ''prod''"
      "ErrorOther []" example_store "[]"
      "\<lparr>item_id = 10, item_owner_id = 1, item_name = ''notes/x'', item_content = [97]\<rparr>"
      example_store]
  by (simp add: example_simps throw_def)

section \<open>The change feed\<close>




lemma next_sequence_items [simp]:
  "next_sequence u (s\<lparr>items_table := xs\<rparr>) = next_sequence u s"
  by (simp add: next_sequence_def changes_of_def)

lemma changes_of_items [simp]:
  "changes_of u (s\<lparr>items_table := xs\<rparr>) = changes_of u s"
  by (simp add: changes_of_def)

lemma gapless_items [simp]:
  "gapless u (s\<lparr>items_table := xs\<rparr>) = gapless u s"
  by (simp add: gapless_def)













lemma paginate_window:
  assumes "\<And>c. fetch c = Inr (window xs c)" and "0 < l"
  shows "length xs - p < fuel \<Longrightarrow>
         paginate fuel fetch \<lparr>position = p, limit = l\<rparr> = Some (Inr (drop p xs))"
proof (induction fuel arbitrary: p)
  case 0
  then show ?case by simp
next
  case (Suc fuel)
  have page: "fetch \<lparr>position = p, limit = l\<rparr> =
      Inr \<lparr>items = take l (drop p xs), has_more = (l < length xs - p),
           cursor = \<lparr>position = p + length (take l (drop p xs)), limit = l\<rparr>\<rparr>"
    by (simp add: assms(1) window_def)
  show ?case
  proof (cases "l < length xs - p")
    case False
    then show ?thesis by (simp add: page)
  next
    case True
    then have len: "length (take l (drop p xs)) = l" by simp
    have "length xs - (p + l) < fuel" using Suc.prems True assms(2) by arith
    then have IH: "paginate fuel fetch \<lparr>position = p + l, limit = l\<rparr>
        = Some (Inr (drop (p + l) xs))"
      by (rule Suc.IH)
    have "take l (drop p xs) @ drop (p + l) xs = drop p xs"
      by (metis add.commute append_take_drop_id drop_drop)
    then show ?thesis
      using True IH len by (simp add: page)
  qed
qed


lemma delta_store:
  assumes "models_change ctx = Store_ChangeModel"
  shows "get_api_items_delta imps path ctx s =
     (case requestChangePagination imps (query ctx) of
        Inl e \<Rightarrow> (Inl e, s)
      | Inr c \<Rightarrow> (Inr (ChangeLog_pageSince (owner_id ctx) c s), s))"
  by (simp add: get_api_items_delta_def assms Store_ChangeModel_def await_def attempt_def
      reading_def Let_def split: sum.splits)




section \<open>The children listing\<close>

lemma listChildren_window:
  "Store_listChildren directDescendant ownerId parentName cur s =
     window (sort_key item_name
               (filter (\<lambda>i. item_owner_id i = ownerId \<and> directDescendant parentName (item_name i))
                  (items_table s))) cur"
  by (simp add: Store_listChildren_def window_def items_of_def Let_def conj_commute)

lemma sorted_take_drop:
  "sorted (map f xs) \<Longrightarrow> sorted (map f (take l (drop p xs)))"
  by (simp add: take_map [symmetric] drop_map [symmetric] sorted_wrt_take sorted_wrt_drop)

lemma example_notebook_children:
  "sort_key item_name
     (filter (\<lambda>i. item_owner_id i = owner_id (example_ctx ''prod'')
                 \<and> (take (Suc (length ''notes'')) (item_name i) = ''notes'' @ ''/''
                    \<and> CHR ''/'' \<notin> set (drop (Suc (length ''notes'')) (item_name i))))
        (items_table example_notebook))
   = [\<lparr>item_id = 22, item_owner_id = 1, item_name = ''notes/a'', item_content = [3]\<rparr>,
      \<lparr>item_id = 20, item_owner_id = 1, item_name = ''notes/b'', item_content = [1]\<rparr>]"
  by (simp add: example_notebook_def example_ctx_def)

text \<open>
  C7: when the path resolves to \<open>parentName\<close> and the query to the cursor \<open>cur\<close>, the
  children route returns the page of \<open>all_children\<close> at the cursor, where \<open>all_children\<close>
  are the caller's items whose name is a direct descendant of \<open>parentName\<close>, ordered by
  name: every item of the page is such an item, the page is ordered by name, \<open>has_more\<close>
  and the next cursor continue the listing, and the client that pages through the change
  feed, run on the children listing from position 0, gets exactly \<open>all_children\<close>.
\<close>

theorem children_listing:
  assumes "models_item ctx = Store_ItemModel resolvePath apiOutput directDescendant uuid"
    and "resolvePath (path_id path) = Inr parentName"
    and "requestPagination imports (query ctx) = Inr cur"
    and "all_children = sort_key item_name
           (filter (\<lambda>i. item_owner_id i = owner_id ctx
                        \<and> directDescendant parentName (item_name i)) (items_table s))"
  shows "\<exists>page.
           get_api_items_children imports path ctx s = (Inr page, s)
         \<and> items page = take (limit cur) (drop (position cur) all_children)
         \<and> has_more page = (position cur + limit cur < length all_children)
         \<and> cursor page = \<lparr>position = position cur + length (items page), limit = limit cur\<rparr>
         \<and> sorted (map item_name (items page))
         \<and> (\<forall>i \<in> set (items page).
               i \<in> set (items_table s) \<and> item_owner_id i = owner_id ctx
             \<and> directDescendant parentName (item_name i))
         \<and> (position cur = 0 \<and> 1 \<le> limit cur \<and> length all_children < fuel \<longrightarrow>
              paginate fuel
                (\<lambda>c. children (models_item ctx) (owner_id ctx) parentName c s) cur
              = Some (Inr all_children))"
proof -
  let ?page = "window all_children cur"
  have lc: "\<And>c. Store_listChildren directDescendant (owner_id ctx) parentName c s
            = window all_children c"
    by (simp add: listChildren_window assms(4))
  have handler: "get_api_items_children imports path ctx s = (Inr ?page, s)"
    using assms(1-3)
    by (simp add: get_api_items_children_def Store_ItemModel_def await_def attempt_def
        reading_def resolve_def Let_def lc)
  have sorted_all: "sorted (map item_name all_children)"
    by (simp add: assms(4))
  have srt: "sorted (map item_name (items ?page))"
    using sorted_all by (simp add: window_def sorted_take_drop)
  have sub: "set (items ?page) \<subseteq> set all_children"
    by (auto simp add: window_def dest: in_set_takeD in_set_dropD)
  have mem: "\<forall>i \<in> set (items ?page).
               i \<in> set (items_table s) \<and> item_owner_id i = owner_id ctx
             \<and> directDescendant parentName (item_name i)"
    using sub by (auto simp add: assms(4))
  have pag: "position cur = 0 \<and> 1 \<le> limit cur \<and> length all_children < fuel \<longrightarrow>
              paginate fuel
                (\<lambda>c. children (models_item ctx) (owner_id ctx) parentName c s) cur
              = Some (Inr all_children)"
  proof (intro impI, elim conjE)
    assume a: "position cur = 0" "1 \<le> limit cur" "length all_children < fuel"
    have c: "cur = \<lparr>position = 0, limit = limit cur\<rparr>" using a(1) by simp
    have "paginate fuel (\<lambda>c. Inr (Store_listChildren directDescendant (owner_id ctx)
              parentName c s)) \<lparr>position = 0, limit = limit cur\<rparr>
          = Some (Inr (drop 0 all_children))"
      using a by (intro paginate_window) (simp_all add: lc)
    then show "paginate fuel
                (\<lambda>c. children (models_item ctx) (owner_id ctx) parentName c s) cur
              = Some (Inr all_children)"
      using c by (simp add: assms(1) Store_ItemModel_def)
  qed
  have "items ?page = take (limit cur) (drop (position cur) all_children)"
    "has_more ?page = (position cur + limit cur < length all_children)"
    "cursor ?page = \<lparr>position = position cur + length (items ?page), limit = limit cur\<rparr>"
    by (auto simp add: window_def)
  with handler srt mem pag show ?thesis by blast
qed

theorem children_listing_witness:
  "get_api_items_children
     (example_imports\<lparr>requestPagination := (\<lambda>_. Inr \<lparr>position = 0, limit = 1\<rparr>)\<rparr>)
     \<lparr>path_id = ''notes''\<rparr> (example_ctx ''prod'') example_notebook
   = (Inr \<lparr>items = [\<lparr>item_id = 22, item_owner_id = 1, item_name = ''notes/a'',
                       item_content = [3]\<rparr>],
           has_more = True,
           cursor = \<lparr>position = 1, limit = 1\<rparr>\<rparr>, example_notebook)
   \<and> paginate 3 (\<lambda>c. children (models_item (example_ctx ''prod''))
                       (owner_id (example_ctx ''prod'')) ''notes'' c example_notebook)
       \<lparr>position = 0, limit = 1\<rparr>
     = Some (Inr
        [\<lparr>item_id = 22, item_owner_id = 1, item_name = ''notes/a'', item_content = [3]\<rparr>,
         \<lparr>item_id = 20, item_owner_id = 1, item_name = ''notes/b'', item_content = [1]\<rparr>])"
proof -
  note m = example_models(1) [of "''prod''"]
  have q: "requestPagination
      (example_imports\<lparr>requestPagination := (\<lambda>_. Inr \<lparr>position = 0, limit = 1\<rparr>)\<rparr>)
      (query (example_ctx ''prod'')) = Inr \<lparr>position = 0, limit = 1\<rparr>"
    by simp
  show ?thesis
    using children_listing [OF m _ q example_notebook_children [symmetric],
        where path = "\<lparr>path_id = ''notes''\<rparr>" and fuel = 3]
    by auto
qed

section \<open>Content writes\<close>

lemma find_None_append:
  "find P xs = None \<Longrightarrow> find P (xs @ [x]) = (if P x then Some x else None)"
  by (induction xs) (simp_all split: if_splits)

lemma find_append_other:
  "\<not> Q x \<Longrightarrow> find Q (xs @ [x]) = find Q xs"
  by (induction xs) simp_all

lemma find_map_update:
  "(\<And>x. P (g x) = P x) \<Longrightarrow>
   find P (map (\<lambda>i. if P i then g i else i) xs) = map_option g (find P xs)"
  by (induction xs) simp_all

lemma find_map_other:
  "(\<And>x. P x \<Longrightarrow> \<not> Q x \<and> \<not> Q (g x)) \<Longrightarrow>
   find Q (map (\<lambda>i. if P i then g i else i) xs) = find Q xs"
  by (induction xs) auto

lemma map_update_again:
  "(\<And>x. P (g x) = P x) \<Longrightarrow> (\<And>x. g (g x) = g x) \<Longrightarrow>
   map (\<lambda>i. if P i then g i else i) (map (\<lambda>i. if P i then g i else i) xs)
     = map (\<lambda>i. if P i then g i else i) xs"
  by (induction xs) simp_all

lemma map_update_fresh:
  "find P xs = None \<Longrightarrow> map (\<lambda>i. if P i then g i else i) xs = xs"
  by (induction xs) (simp_all split: if_splits)

lemma loadByName_Some:
  "Store_loadByName ownerId name s = Some old \<Longrightarrow>
     item_owner_id old = ownerId \<and> item_name old = name"
  unfolding Store_loadByName_def by (auto simp add: find_Some_iff)

lemma saveContent_fst:
  "fst (Store_saveContent uuid ownerId name bytes s) = saved_item uuid ownerId name bytes s"
  by (simp add: Store_saveContent_def saved_item_def Let_def split: option.splits)

lemma saveContent_changes:
  "changes_table (snd (Store_saveContent uuid ownerId name bytes s)) =
     changes_table s @
       [\<lparr>change_owner_id = ownerId,
         change_item_id = item_id (saved_item uuid ownerId name bytes s),
         change_item_name = name,
         change_type = (case Store_loadByName ownerId name s of
                          None \<Rightarrow> Create | Some _ \<Rightarrow> Update),
         change_sequence = next_sequence ownerId s\<rparr>]"
  by (simp add: Store_saveContent_def saved_item_def Let_def ChangeLog_append_def
      next_sequence_def changes_of_def split: option.splits)

lemma loadByName_append [simp]:
  "Store_loadByName u n (ChangeLog_append v i m t s) = Store_loadByName u n s"
  by (simp add: Store_loadByName_def ChangeLog_append_def)

lemma items_table_append [simp]:
  "items_table (ChangeLog_append v i m t s) = items_table s"
  by (simp add: ChangeLog_append_def)

lemma saveContent_load:
  "Store_loadByName ownerId name (snd (Store_saveContent uuid ownerId name bytes s))
     = Some (saved_item uuid ownerId name bytes s)"
proof (cases "Store_loadByName ownerId name s")
  case None
  then show ?thesis
    by (simp add: Store_saveContent_def saved_item_def Let_def)
      (simp add: Store_loadByName_def find_None_append)
next
  case (Some old)
  have "find (\<lambda>i. item_owner_id i = ownerId \<and> item_name i = name)
          (map (\<lambda>i. if item_owner_id i = ownerId \<and> item_name i = name
                    then i\<lparr>item_content := bytes\<rparr> else i) (items_table s))
        = map_option (\<lambda>i. i\<lparr>item_content := bytes\<rparr>)
            (find (\<lambda>i. item_owner_id i = ownerId \<and> item_name i = name) (items_table s))"
    by (rule find_map_update) simp
  then show ?thesis
    using Some
    by (simp add: Store_saveContent_def saved_item_def Let_def)
      (simp add: Store_loadByName_def)
qed

lemma saveContent_load_other:
  assumes "u \<noteq> ownerId \<or> n \<noteq> name"
  shows "Store_loadByName u n (snd (Store_saveContent uuid ownerId name bytes s))
     = Store_loadByName u n s"
proof (cases "Store_loadByName ownerId name s")
  case None
  then show ?thesis
    using assms
    by (simp add: Store_saveContent_def Let_def)
      (auto simp add: Store_loadByName_def find_append_other)
next
  case (Some old)
  have "find (\<lambda>i. item_owner_id i = u \<and> item_name i = n)
          (map (\<lambda>i. if item_owner_id i = ownerId \<and> item_name i = name
                    then i\<lparr>item_content := bytes\<rparr> else i) (items_table s))
        = find (\<lambda>i. item_owner_id i = u \<and> item_name i = n) (items_table s)"
    using assms by (intro find_map_other) auto
  then show ?thesis
    using Some
    by (simp add: Store_saveContent_def Let_def) (simp add: Store_loadByName_def)
qed

lemma saved_item_fields:
  "item_owner_id (saved_item uuid ownerId name bytes s) = ownerId"
  "item_name (saved_item uuid ownerId name bytes s) = name"
  "item_content (saved_item uuid ownerId name bytes s) = bytes"
  "item_id (saved_item uuid ownerId name bytes s) =
     (case Store_loadByName ownerId name s of None \<Rightarrow> uuid | Some old \<Rightarrow> item_id old)"
  by (auto simp add: saved_item_def dest: loadByName_Some split: option.splits)

lemma saveContent_again_items:
  "items_table (snd (Store_saveContent uuid' ownerId name bytes
       (snd (Store_saveContent uuid ownerId name bytes s))))
     = items_table (snd (Store_saveContent uuid ownerId name bytes s))"
proof -
  let ?s' = "snd (Store_saveContent uuid ownerId name bytes s)"
  let ?P = "\<lambda>i. item_owner_id i = ownerId \<and> item_name i = name"
  let ?g = "\<lambda>i. i\<lparr>item_content := bytes\<rparr>"
  have upd: "items_table (snd (Store_saveContent uuid' ownerId name bytes ?s'))
      = map (\<lambda>i. if ?P i then ?g i else i) (items_table ?s')"
    using saveContent_load [of ownerId name uuid bytes s]
    by (simp add: Store_saveContent_def [of uuid' ownerId name bytes ?s'] Let_def)
  show ?thesis
  proof (cases "Store_loadByName ownerId name s")
    case None
    then have "map (\<lambda>i. if ?P i then ?g i else i) (items_table s) = items_table s"
      unfolding Store_loadByName_def by (rule map_update_fresh)
    then have "map (\<lambda>i. if ?P i then ?g i else i) (items_table ?s') = items_table ?s'"
      using None by (simp add: Store_saveContent_def Let_def)
    then show ?thesis using upd by simp
  next
    case (Some old)
    have "map (\<lambda>i. if ?P i then ?g i else i) (map (\<lambda>i. if ?P i then ?g i else i) (items_table s))
        = map (\<lambda>i. if ?P i then ?g i else i) (items_table s)"
      by (rule map_update_again) simp_all
    then have "map (\<lambda>i. if ?P i then ?g i else i) (items_table ?s') = items_table ?s'"
      using Some by (simp add: Store_saveContent_def Let_def)
    then show ?thesis using upd by simp
  qed
qed

lemma saved_item_again:
  "saved_item uuid' ownerId name bytes (snd (Store_saveContent uuid ownerId name bytes s))
     = saved_item uuid ownerId name bytes s"
  by (simp add: saved_item_def [of uuid' ownerId name bytes] saveContent_load
      saved_item_fields)

lemma put_content_saves:
  assumes "models_item ctx = Store_ItemModel resolvePath apiOutput directDescendant uuid"
    and "resolvePath (path_id path) = Inr name"
    and "formParse imports (req ctx) = Inr parsedBody"
    and "case parsedBody of
           None \<Rightarrow> bytes = []
         | Some body \<Rightarrow>
             (case files_file_path body of
                None \<Rightarrow> bytes = []
              | Some file_path \<Rightarrow> fs_readFile imports file_path = Inr bytes)"
  shows "put_api_items_content imports path ctx s =
           (Inr (apiOutput (saved_item uuid (owner_id ctx) name bytes s)),
            snd (Store_saveContent uuid (owner_id ctx) name bytes s))"
proof -
  have buffer: "(case parsedBody of
            Some body \<Rightarrow>
              (case files_file_path body of
                 Some file_path \<Rightarrow> attempt (fs_readFile imports file_path)
               | None \<Rightarrow> resolve [])
          | None \<Rightarrow> resolve []) s = (Inr bytes, s)"
  proof (cases parsedBody)
    case None
    then show ?thesis using assms(4) by (simp add: resolve_def)
  next
    case (Some body)
    then show ?thesis
      using assms(4) by (cases "files_file_path body") (simp_all add: resolve_def attempt_def)
  qed
  have "put_api_items_content imports path ctx s =
          (Inr (apiOutput (fst (Store_saveContent uuid (owner_id ctx) name bytes s))),
           snd (Store_saveContent uuid (owner_id ctx) name bytes s))"
    using assms(1-3)
    by (simp add: put_api_items_content_def Store_ItemModel_def await_def attempt_def
        buffer resolve_def Let_def split: prod.splits)
  then show ?thesis by (simp add: saveContent_fst)
qed

text \<open>
  C4: when the path resolves to \<open>name\<close> and the body parses to \<open>bytes\<close> (the uploaded
  file, or no bytes when there is none), PUT returns the API representation of the item
  that is then stored under the caller's owner id and \<open>name\<close> with content \<open>bytes\<close>: a new
  item when none existed, the same item otherwise; no other name or owner is touched and
  exactly one ChangeEvent is appended, \<open>Create\<close> on the first write and \<open>Update\<close> after.
  A second PUT of the same bytes returns the same representation and leaves the items as
  they are (it appends its \<open>Update\<close>). The write and its ChangeEvent are one step of the
  state.
\<close>

theorem put_content_upsert:
  assumes "models_item ctx = Store_ItemModel resolvePath apiOutput directDescendant uuid"
    and "resolvePath (path_id path) = Inr name"
    and "formParse imports (req ctx) = Inr parsedBody"
    and "case parsedBody of
           None \<Rightarrow> bytes = []
         | Some body \<Rightarrow>
             (case files_file_path body of
                None \<Rightarrow> bytes = []
              | Some file_path \<Rightarrow> fs_readFile imports file_path = Inr bytes)"
    and "put_api_items_content imports path ctx s = (r, s')"
    and "put_api_items_content imports path ctx s' = (r2, s'')"
  shows "\<exists>item.
           r = Inr (apiOutput item)
         \<and> Store_loadByName (owner_id ctx) name s' = Some item
         \<and> item_content item = bytes
         \<and> item_id item = (case Store_loadByName (owner_id ctx) name s of
                             None \<Rightarrow> uuid | Some old \<Rightarrow> item_id old)
         \<and> (\<forall>u n. u \<noteq> owner_id ctx \<or> n \<noteq> name \<longrightarrow>
               Store_loadByName u n s' = Store_loadByName u n s)
         \<and> changes_table s' = changes_table s @
               [\<lparr>change_owner_id = owner_id ctx, change_item_id = item_id item,
                 change_item_name = name,
                 change_type = (case Store_loadByName (owner_id ctx) name s of
                                  None \<Rightarrow> Create | Some _ \<Rightarrow> Update),
                 change_sequence = next_sequence (owner_id ctx) s\<rparr>]
         \<and> r2 = r
         \<and> items_table s'' = items_table s'
         \<and> changes_table s'' = changes_table s' @
               [\<lparr>change_owner_id = owner_id ctx, change_item_id = item_id item,
                 change_item_name = name, change_type = Update,
                 change_sequence = next_sequence (owner_id ctx) s'\<rparr>]"
proof -
  let ?u = "owner_id ctx"
  let ?item = "saved_item uuid ?u name bytes s"
  have first: "r = Inr (apiOutput ?item)" "s' = snd (Store_saveContent uuid ?u name bytes s)"
    using put_content_saves [OF assms(1-4), of s] assms(5) by simp_all
  have second: "r2 = Inr (apiOutput (saved_item uuid ?u name bytes s'))"
    "s'' = snd (Store_saveContent uuid ?u name bytes s')"
    using put_content_saves [OF assms(1-4), of s'] assms(6) by simp_all
  have again: "saved_item uuid ?u name bytes s' = ?item"
    unfolding first(2) by (rule saved_item_again)
  have load': "Store_loadByName ?u name s' = Some ?item"
    unfolding first(2) by (rule saveContent_load)
  have "r = Inr (apiOutput ?item)" by (rule first(1))
  moreover note load'
  moreover have "item_content ?item = bytes" by (rule saved_item_fields)
  moreover have "item_id ?item = (case Store_loadByName ?u name s of
                             None \<Rightarrow> uuid | Some old \<Rightarrow> item_id old)"
    by (rule saved_item_fields)
  moreover have "\<forall>u n. u \<noteq> ?u \<or> n \<noteq> name \<longrightarrow>
               Store_loadByName u n s' = Store_loadByName u n s"
    unfolding first(2) by (simp add: saveContent_load_other)
  moreover have "changes_table s' = changes_table s @
               [\<lparr>change_owner_id = ?u, change_item_id = item_id ?item,
                 change_item_name = name,
                 change_type = (case Store_loadByName ?u name s of
                                  None \<Rightarrow> Create | Some _ \<Rightarrow> Update),
                 change_sequence = next_sequence ?u s\<rparr>]"
    unfolding first(2) by (rule saveContent_changes)
  moreover have "r2 = r" by (simp add: first(1) second(1) again)
  moreover have "items_table s'' = items_table s'"
    unfolding second(2) first(2) by (rule saveContent_again_items)
  moreover have "changes_table s'' = changes_table s' @
               [\<lparr>change_owner_id = ?u, change_item_id = item_id ?item,
                 change_item_name = name, change_type = Update,
                 change_sequence = next_sequence ?u s'\<rparr>]"
    unfolding second(2) by (simp add: saveContent_changes again load')
  ultimately show ?thesis by blast
qed

theorem put_content_upsert_witness:
  "fst (put_api_items_content example_imports \<lparr>path_id = ''notes/x''\<rparr> (example_ctx ''prod'')
          example_store)
     = Inr \<lparr>item_id = 10, item_owner_id = 1, item_name = ''notes/x'', item_content = [98]\<rparr>
   \<and> Store_loadByName 1 ''notes/x''
        (snd (put_api_items_content example_imports \<lparr>path_id = ''notes/x''\<rparr>
                (example_ctx ''prod'') example_store))
     = Some \<lparr>item_id = 10, item_owner_id = 1, item_name = ''notes/x'', item_content = [98]\<rparr>
   \<and> Store_loadByName 2 ''notes/y''
        (snd (put_api_items_content example_imports \<lparr>path_id = ''notes/x''\<rparr>
                (example_ctx ''prod'') example_store))
     = Store_loadByName 2 ''notes/y'' example_store
   \<and> changes_table
        (snd (put_api_items_content example_imports \<lparr>path_id = ''notes/x''\<rparr>
                (example_ctx ''prod'') example_store))
     = changes_table example_store @
         [\<lparr>change_owner_id = 1, change_item_id = 10, change_item_name = ''notes/x'',
           change_type = Update, change_sequence = 2\<rparr>]"
proof -
  let ?put = "put_api_items_content example_imports \<lparr>path_id = ''notes/x''\<rparr>
                (example_ctx ''prod'')"
  have f: "formParse example_imports (req (example_ctx ''prod''))
           = Inr (Some \<lparr>files_file_path = Some ''/tmp/upload_1''\<rparr>)"
    by (simp add: example_imports_def)
  have b: "case Some \<lparr>files_file_path = Some ''/tmp/upload_1''\<rparr> of
             None \<Rightarrow> ([98] :: Buffer) = []
           | Some body \<Rightarrow>
               (case files_file_path body of
                  None \<Rightarrow> ([98] :: Buffer) = []
                | Some file_path \<Rightarrow> fs_readFile example_imports file_path = Inr [98])"
    by (simp add: example_imports_def)
  have l: "Store_loadByName (owner_id (example_ctx ''prod'')) ''notes/x'' example_store
           = Some \<lparr>item_id = 10, item_owner_id = 1, item_name = ''notes/x'',
                   item_content = [97]\<rparr>"
    by (simp add: example_models Store_loadByName_def example_store_def)
  have n: "next_sequence (owner_id (example_ctx ''prod'')) example_store = 2"
    by (simp add: example_models next_sequence_def changes_of_def example_store_def)
  obtain item where
    "fst (?put example_store) = Inr item"
    "Store_loadByName (owner_id (example_ctx ''prod'')) ''notes/x'' (snd (?put example_store))
       = Some item"
    "item_content item = [98]"
    "item_id item = 10"
    "\<forall>u n. u \<noteq> owner_id (example_ctx ''prod'') \<or> n \<noteq> ''notes/x'' \<longrightarrow>
       Store_loadByName u n (snd (?put example_store)) = Store_loadByName u n example_store"
    "changes_table (snd (?put example_store)) = changes_table example_store @
       [\<lparr>change_owner_id = owner_id (example_ctx ''prod''), change_item_id = item_id item,
         change_item_name = ''notes/x'', change_type = Update, change_sequence = 2\<rparr>]"
    using put_content_upsert [OF example_models(1) _ f b prod.collapse [symmetric]
        prod.collapse [symmetric],
        where path = "\<lparr>path_id = ''notes/x''\<rparr>" and s = example_store]
    by (auto simp add: l n)
  moreover from this(2) have "item_owner_id item = 1" "item_name item = ''notes/x''"
    using loadByName_Some [of "owner_id (example_ctx ''prod'')" "''notes/x''" _ item]
    by (simp_all add: example_models)
  ultimately show ?thesis
    by (cases item) (simp add: example_models)
qed

section \<open>Isolation of owners\<close>

lemma find_filter_implied:
  "(\<forall>i \<in> set xs. Q i \<longrightarrow> R i) \<Longrightarrow> find Q (filter R xs) = find Q xs"
  by (induction xs) auto

lemma find_conj_filter:
  "find (\<lambda>i. R i \<and> Q i) xs = find Q (filter R xs)"
  by (induction xs) auto

lemma find_distinct_key:
  "distinct (map f xs) \<Longrightarrow> x \<in> set xs \<Longrightarrow> find (\<lambda>i. f i = f x) xs = Some x"
  by (induction xs) auto

lemma loadByName_view:
  "Store_loadByName u n s = find (\<lambda>i. item_name i = n) (items_of u s)"
  by (simp add: Store_loadByName_def items_of_def find_conj_filter)

subsection \<open>Deleting an item\<close>

lemma items_of_delete:
  "items_of v (Store_delete iid s) = filter (\<lambda>i. item_id i \<noteq> iid) (items_of v s)"
proof (cases "find (\<lambda>i. item_id i = iid) (items_table s)")
  case None
  then have "\<forall>i \<in> set (items_table s). item_id i \<noteq> iid"
    by (simp add: find_None_iff)
  then have "filter (\<lambda>i. item_id i \<noteq> iid) (items_of v s) = items_of v s"
    by (intro filter_True) (simp add: items_of_def)
  then show ?thesis using None by (simp add: Store_delete_def)
next
  case (Some it)
  then show ?thesis
    by (simp add: Store_delete_def items_of_def ChangeLog_append_def conj_commute)
qed

lemma changes_of_delete:
  assumes "owned_id u iid s"
  shows "changes_of v (Store_delete iid s) =
     changes_of v s @
       (if v = u
        then (case find (\<lambda>i. item_id i = iid) (items_of u s) of
                None \<Rightarrow> []
              | Some it \<Rightarrow>
                  [\<lparr>change_owner_id = u, change_item_id = iid,
                    change_item_name = item_name it, change_type = Delete,
                    change_sequence = next_sequence u s\<rparr>])
        else [])"
proof -
  have f: "find (\<lambda>i. item_id i = iid) (items_of u s)
           = find (\<lambda>i. item_id i = iid) (items_table s)"
    unfolding items_of_def using assms
    by (intro find_filter_implied) (simp add: owned_id_def)
  show ?thesis
  proof (cases "find (\<lambda>i. item_id i = iid) (items_table s)")
    case None
    then show ?thesis by (simp add: Store_delete_def f)
  next
    case (Some it)
    then have "it \<in> set (items_table s)" "item_id it = iid"
      by (auto simp add: find_Some_iff)
    then have "item_owner_id it = u" using assms by (simp add: owned_id_def)
    then show ?thesis
      using Some
      by (simp add: Store_delete_def f ChangeLog_append_def changes_of_def next_sequence_def)
  qed
qed

lemma items_table_delete_subset:
  "set (items_table (Store_delete iid s)) \<subseteq> set (items_table s)"
  by (auto simp add: Store_delete_def ChangeLog_append_def split: option.splits)

lemma owned_id_delete:
  "owned_id u iid s \<Longrightarrow> owned_id u iid (Store_delete jid s)"
  using items_table_delete_subset [of jid s] unfolding owned_id_def by blast

lemma unique_ids_owned:
  assumes "unique_ids s" and "it \<in> set (items_table s)"
  shows "owned_id (item_owner_id it) (item_id it) s"
proof -
  have inj: "inj_on item_id (set (items_table s))"
    using assms(1) by (simp add: unique_ids_def distinct_map)
  show ?thesis
    unfolding owned_id_def
  proof (intro ballI impI)
    fix i
    assume "i \<in> set (items_table s)" and "item_id i = item_id it"
    with inj assms(2) have "i = it" by (simp add: inj_on_def)
    then show "item_owner_id i = item_owner_id it" by simp
  qed
qed

lemma delete_other:
  "owned_id u iid s \<Longrightarrow> v \<noteq> u \<Longrightarrow> owner_view v (Store_delete iid s) = owner_view v s"
proof -
  assume o: "owned_id u iid s" and ne: "v \<noteq> u"
  have "\<forall>i \<in> set (items_of v s). item_id i \<noteq> iid"
    using o ne by (auto simp add: owned_id_def items_of_def)
  then have "filter (\<lambda>i. item_id i \<noteq> iid) (items_of v s) = items_of v s"
    by (intro filter_True)
  then show ?thesis
    using ne by (simp add: owner_view_def items_of_delete changes_of_delete [OF o])
qed

lemma delete_same:
  assumes "owned_id u iid s" and "owned_id u iid t" and "owner_view u s = owner_view u t"
  shows "owner_view u (Store_delete iid s) = owner_view u (Store_delete iid t)"
proof -
  have i: "items_of u s = items_of u t" and c: "changes_of u s = changes_of u t"
    using assms(3) by (simp_all add: owner_view_def)
  have n: "next_sequence u s = next_sequence u t"
    by (simp add: next_sequence_def c)
  show ?thesis
    unfolding owner_view_def items_of_delete changes_of_delete [OF assms(1)]
      changes_of_delete [OF assms(2)] i c n
    by simp
qed

subsection \<open>Deleting all items of an owner\<close>

lemma fold_delete_other:
  "\<forall>x \<in> set xs. owned_id u (item_id x) s \<Longrightarrow> v \<noteq> u \<Longrightarrow>
   owner_view v (fold (\<lambda>item acc. Store_delete (item_id item) acc) xs s) = owner_view v s"
proof (induction xs arbitrary: s)
  case Nil
  then show ?case by simp
next
  case (Cons x xs)
  have "\<forall>y \<in> set xs. owned_id u (item_id y) (Store_delete (item_id x) s)"
    using Cons.prems(1) by (simp add: owned_id_delete)
  then have "owner_view v (fold (\<lambda>item acc. Store_delete (item_id item) acc) xs
                 (Store_delete (item_id x) s))
             = owner_view v (Store_delete (item_id x) s)"
    using Cons.prems(2) by (rule Cons.IH)
  also have "\<dots> = owner_view v s"
    using Cons.prems by (intro delete_other [of u]) simp_all
  finally show ?case by simp
qed

lemma fold_delete_same:
  "\<forall>x \<in> set xs. owned_id u (item_id x) s \<Longrightarrow> \<forall>x \<in> set xs. owned_id u (item_id x) t \<Longrightarrow>
   owner_view u s = owner_view u t \<Longrightarrow>
   owner_view u (fold (\<lambda>item acc. Store_delete (item_id item) acc) xs s)
     = owner_view u (fold (\<lambda>item acc. Store_delete (item_id item) acc) xs t)"
proof (induction xs arbitrary: s t)
  case Nil
  then show ?case by simp
next
  case (Cons x xs)
  have v: "owner_view u (Store_delete (item_id x) s) = owner_view u (Store_delete (item_id x) t)"
    using Cons.prems by (intro delete_same) simp_all
  have os: "\<forall>y \<in> set xs. owned_id u (item_id y) (Store_delete (item_id x) s)"
    using Cons.prems(1) by (simp add: owned_id_delete)
  have ot: "\<forall>y \<in> set xs. owned_id u (item_id y) (Store_delete (item_id x) t)"
    using Cons.prems(2) by (simp add: owned_id_delete)
  have "owner_view u (fold (\<lambda>item acc. Store_delete (item_id item) acc) xs
                        (Store_delete (item_id x) s))
        = owner_view u (fold (\<lambda>item acc. Store_delete (item_id item) acc) xs
                        (Store_delete (item_id x) t))"
    using os ot v by (rule Cons.IH)
  then show ?case by simp
qed

lemma unique_ids_items_of:
  assumes "unique_ids s"
  shows "\<forall>x \<in> set (items_of u s). owned_id u (item_id x) s"
proof
  fix x
  assume "x \<in> set (items_of u s)"
  then have "x \<in> set (items_table s)" and "item_owner_id x = u"
    by (simp_all add: items_of_def)
  then show "owned_id u (item_id x) s"
    using unique_ids_owned [OF assms, of x] by simp
qed

lemma deleteAll_other:
  "unique_ids s \<Longrightarrow> v \<noteq> u \<Longrightarrow> owner_view v (Store_deleteAll u s) = owner_view v s"
  unfolding Store_deleteAll_def
  by (rule fold_delete_other [of _ u]) (simp_all add: unique_ids_items_of)

lemma deleteAll_same:
  assumes "unique_ids s" and "unique_ids t" and "owner_view u s = owner_view u t"
  shows "owner_view u (Store_deleteAll u s) = owner_view u (Store_deleteAll u t)"
proof -
  have eq: "items_of u s = items_of u t" using assms(3) by (simp add: owner_view_def)
  have "\<forall>x \<in> set (items_of u s). owned_id u (item_id x) t"
    unfolding eq using assms(2) by (rule unique_ids_items_of)
  then show ?thesis
    unfolding Store_deleteAll_def eq [symmetric]
    using assms by (intro fold_delete_same) (simp_all add: unique_ids_items_of)
qed

subsection \<open>Writing content\<close>

lemma filter_map_preserving:
  "(\<And>x. P (h x) = P x) \<Longrightarrow> filter P (map h xs) = map h (filter P xs)"
  by (induction xs) simp_all

lemma filter_map_untouched:
  "(\<And>x. P x \<Longrightarrow> h x = x) \<Longrightarrow> (\<And>x. P (h x) = P x) \<Longrightarrow> filter P (map h xs) = filter P xs"
  by (induction xs) simp_all

lemma items_of_saveContent_other:
  assumes "v \<noteq> u"
  shows "items_of v (snd (Store_saveContent uuid u n b s)) = items_of v s"
proof (cases "Store_loadByName u n s")
  case None
  then show ?thesis
    using assms by (simp add: Store_saveContent_def Let_def items_of_def)
next
  case (Some old)
  have "filter (\<lambda>i. item_owner_id i = v)
          (map (\<lambda>i. if item_owner_id i = u \<and> item_name i = n
                    then i\<lparr>item_content := b\<rparr> else i) (items_table s))
        = filter (\<lambda>i. item_owner_id i = v) (items_table s)"
    using assms by (intro filter_map_untouched) auto
  then show ?thesis
    using Some by (simp add: Store_saveContent_def Let_def items_of_def)
qed

lemma items_of_saveContent_same:
  "items_of u (snd (Store_saveContent uuid u n b s)) =
     (case find (\<lambda>i. item_name i = n) (items_of u s) of
        None \<Rightarrow> items_of u s @ [\<lparr>item_id = uuid, item_owner_id = u, item_name = n,
                                 item_content = b\<rparr>]
      | Some old \<Rightarrow> map (\<lambda>i. if item_owner_id i = u \<and> item_name i = n
                              then i\<lparr>item_content := b\<rparr> else i) (items_of u s))"
proof (cases "Store_loadByName u n s")
  case None
  then show ?thesis
    by (simp add: Store_saveContent_def Let_def)
      (simp add: items_of_def loadByName_view)
next
  case (Some old)
  have "filter (\<lambda>i. item_owner_id i = u)
          (map (\<lambda>i. if item_owner_id i = u \<and> item_name i = n
                    then i\<lparr>item_content := b\<rparr> else i) (items_table s))
        = map (\<lambda>i. if item_owner_id i = u \<and> item_name i = n
                    then i\<lparr>item_content := b\<rparr> else i)
            (filter (\<lambda>i. item_owner_id i = u) (items_table s))"
    by (intro filter_map_preserving) simp
  then show ?thesis
    using Some
    by (simp add: Store_saveContent_def Let_def)
      (simp add: items_of_def loadByName_view)
qed

lemma changes_of_saveContent:
  "changes_of v (snd (Store_saveContent uuid u n b s)) =
     changes_of v s @
       (if v = u
        then [\<lparr>change_owner_id = u,
               change_item_id = item_id (saved_item uuid u n b s),
               change_item_name = n,
               change_type = (case Store_loadByName u n s of
                                None \<Rightarrow> Create | Some _ \<Rightarrow> Update),
               change_sequence = next_sequence u s\<rparr>]
        else [])"
  by (simp add: changes_of_def [of v] saveContent_changes)

lemma saveContent_other:
  "v \<noteq> u \<Longrightarrow> owner_view v (snd (Store_saveContent uuid u n b s)) = owner_view v s"
  by (simp add: owner_view_def items_of_saveContent_other changes_of_saveContent)

lemma saveContent_same:
  assumes "owner_view u s = owner_view u t"
  shows "fst (Store_saveContent uuid u n b s) = fst (Store_saveContent uuid u n b t)
       \<and> owner_view u (snd (Store_saveContent uuid u n b s))
           = owner_view u (snd (Store_saveContent uuid u n b t))"
proof -
  have i: "items_of u s = items_of u t" and c: "changes_of u s = changes_of u t"
    using assms by (simp_all add: owner_view_def)
  have l: "Store_loadByName u n s = Store_loadByName u n t"
    by (simp add: loadByName_view i)
  have n: "next_sequence u s = next_sequence u t"
    by (simp add: next_sequence_def c)
  have f: "saved_item uuid u n b s = saved_item uuid u n b t"
    by (simp add: saved_item_def l)
  show ?thesis
    unfolding owner_view_def items_of_saveContent_same changes_of_saveContent
      saveContent_fst i c l n f
    by simp
qed

subsection \<open>Queries\<close>

lemma pageSince_same:
  "changes_of u s = changes_of u t \<Longrightarrow> ChangeLog_pageSince u c s = ChangeLog_pageSince u c t"
  by (simp add: ChangeLog_pageSince_def)

lemma listChildren_same:
  "items_of u s = items_of u t \<Longrightarrow>
   Store_listChildren dd u p c s = Store_listChildren dd u p c t"
  by (simp add: Store_listChildren_def)

lemma readContent_unique:
  "unique_ids s \<Longrightarrow> it \<in> set (items_table s) \<Longrightarrow>
   Store_readContent (item_id it) s = Inr (item_content it)"
  by (simp add: Store_readContent_def unique_ids_def find_distinct_key)

subsection \<open>The routes over the store\<close>

lemma await_resolve:
  "await m (\<lambda>x. resolve (f x)) s =
     (case m s of (Inl e, s') \<Rightarrow> (Inl e, s') | (Inr x, s') \<Rightarrow> (Inr (f x), s'))"
  by (simp add: await_def resolve_def split: prod.splits sum.splits)

lemma Store_ItemModel_sel:
  "pathToName (Store_ItemModel rp ao dd uuid) = rp"
  "loadByName (Store_ItemModel rp ao dd uuid) = (\<lambda>u n s. Inr (Store_loadByName u n s))"
  "delete (Store_ItemModel rp ao dd uuid) = (\<lambda>i s. (Inr (), Store_delete i s))"
  "deleteAll (Store_ItemModel rp ao dd uuid) = (\<lambda>u s. (Inr (), Store_deleteAll u s))"
  "serializedContent (Store_ItemModel rp ao dd uuid) = Store_readContent"
  "saveFromRawContent (Store_ItemModel rp ao dd uuid) =
     (\<lambda>u n b s. case Store_saveContent uuid u n b s of (item, s') \<Rightarrow> (Inr item, s'))"
  "toApiOutput (Store_ItemModel rp ao dd uuid) = ao"
  "children (Store_ItemModel rp ao dd uuid) = (\<lambda>u p c s. Inr (Store_listChildren dd u p c s))"
  by (simp_all add: Store_ItemModel_def)

lemma itemFromPath_store:
  "itemFromPath u (Store_ItemModel rp ao dd uuid) path True s =
     (case rp (path_id path) of
        Inl e \<Rightarrow> (Inl e, s)
      | Inr n \<Rightarrow>
          (case find (\<lambda>i. item_name i = n) (items_of u s) of
             None \<Rightarrow> (Inl (ErrorNotFound (''Not found: '' @ path_id path)), s)
           | Some it \<Rightarrow> (Inr (Some it), s)))"
  by (simp add: itemFromPath_eq Store_ItemModel_sel loadByName_view
      split: sum.splits option.splits)

lemma find_items_of_mem:
  "find Q (items_of u s) = Some it \<Longrightarrow> it \<in> set (items_table s) \<and> item_owner_id it = u"
  by (auto simp add: find_Some_iff items_of_def dest: nth_mem)

lemma get_item_store:
  assumes "models_item ctx = Store_ItemModel rp ao dd uuid"
  shows "get_api_items path ctx s =
     (case rp (path_id path) of
        Inl e \<Rightarrow> (Inl e, s)
      | Inr n \<Rightarrow>
          (case find (\<lambda>i. item_name i = n) (items_of (owner_id ctx) s) of
             None \<Rightarrow> (Inl (ErrorNotFound (''Not found: '' @ path_id path)), s)
           | Some it \<Rightarrow> (Inr (ao it), s)))"
  by (simp add: get_api_items_def assms itemFromPath_store await_def with_item_def
      resolve_def Let_def Store_ItemModel_sel split: sum.splits option.splits)

lemma get_content_store:
  assumes "models_item ctx = Store_ItemModel rp ao dd uuid" and "unique_ids s"
  shows "get_api_items_content imps path ctx s =
     (case rp (path_id path) of
        Inl e \<Rightarrow> (Inl e, s)
      | Inr n \<Rightarrow>
          (case find (\<lambda>i. item_name i = n) (items_of (owner_id ctx) s) of
             None \<Rightarrow> (Inl (ErrorNotFound (''Not found: '' @ path_id path)), s)
           | Some it \<Rightarrow>
               (Inr (respondWithItemContent imps (response ctx) it (item_content it)), s)))"
proof (cases "rp (path_id path)")
  case (Inl e)
  then show ?thesis
    by (simp add: get_api_items_content_def assms(1) itemFromPath_store await_def Let_def)
next
  case (Inr n)
  show ?thesis
  proof (cases "find (\<lambda>i. item_name i = n) (items_of (owner_id ctx) s)")
    case None
    then show ?thesis
      using Inr
      by (simp add: get_api_items_content_def assms(1) itemFromPath_store await_def Let_def)
  next
    case (Some it)
    then have "it \<in> set (items_table s)" by (simp add: find_items_of_mem)
    then have "Store_readContent (item_id it) s = Inr (item_content it)"
      using assms(2) by (simp add: readContent_unique)
    then show ?thesis
      using Inr Some
      by (simp add: get_api_items_content_def assms(1) itemFromPath_store await_def Let_def
          with_item_def reading_def resolve_def Store_ItemModel_sel)
  qed
qed

lemma children_store:
  assumes "models_item ctx = Store_ItemModel rp ao dd uuid"
  shows "get_api_items_children imps path ctx s =
     (case rp (path_id path) of
        Inl e \<Rightarrow> (Inl e, s)
      | Inr p \<Rightarrow>
          (case requestPagination imps (query ctx) of
             Inl e \<Rightarrow> (Inl e, s)
           | Inr c \<Rightarrow> (Inr (Store_listChildren dd (owner_id ctx) p c s), s)))"
  by (simp add: get_api_items_children_def assms Store_ItemModel_sel await_def attempt_def
      reading_def resolve_def Let_def split: sum.splits)

lemma put_store:
  assumes "models_item ctx = Store_ItemModel rp ao dd uuid"
  shows "(\<exists>e. \<forall>s. put_api_items_content imps path ctx s = (Inl e, s))
       \<or> (\<exists>n b. \<forall>s. put_api_items_content imps path ctx s =
             (Inr (ao (fst (Store_saveContent uuid (owner_id ctx) n b s))),
              snd (Store_saveContent uuid (owner_id ctx) n b s)))"
proof (cases "rp (path_id path)")
  case (Inl e)
  then show ?thesis
    by (simp add: put_api_items_content_def assms Store_ItemModel_sel await_def attempt_def
        Let_def)
next
  case name: (Inr n)
  show ?thesis
  proof (cases "formParse imps (req ctx)")
    case (Inl e)
    then show ?thesis
      using name
      by (simp add: put_api_items_content_def assms Store_ItemModel_sel await_def attempt_def
          Let_def)
  next
    case body: (Inr parsedBody)
    let ?buffer = "case parsedBody of
               Some body \<Rightarrow>
                 (case files_file_path body of
                    Some file_path \<Rightarrow> attempt (fs_readFile imps file_path)
                  | None \<Rightarrow> resolve [])
             | None \<Rightarrow> resolve []"
    have "\<exists>r. \<forall>s::Store. ?buffer s = (r, s)"
      by (simp add: attempt_def resolve_def split: option.splits)
    then obtain r where r: "\<And>s::Store. ?buffer s = (r, s)" by blast
    show ?thesis
    proof (cases r)
      case (Inl e)
      then show ?thesis
        using name body r
        by (simp add: put_api_items_content_def assms Store_ItemModel_sel await_def
            attempt_def Let_def)
    next
      case (Inr b)
      then have "\<forall>s. put_api_items_content imps path ctx s =
             (Inr (ao (fst (Store_saveContent uuid (owner_id ctx) n b s))),
              snd (Store_saveContent uuid (owner_id ctx) n b s))"
        using name body r
        by (simp add: put_api_items_content_def assms Store_ItemModel_sel await_def
            attempt_def resolve_def Let_def split: prod.splits)
      then show ?thesis by blast
    qed
  qed
qed

lemma del_store:
  assumes "models_item ctx = Store_ItemModel rp ao dd uuid"
  shows "del_api_items path ctx s =
     (if path_id path = ''root'' \<or> path_id path = ''root:/:''
      then (if env ctx \<noteq> ''dev''
            then (Inl (ErrorMethodNotAllowed ''Deleting the root is not allowed''), s)
            else (Inr (), Store_deleteAll (owner_id ctx) s))
      else (case rp (path_id path) of
              Inl e \<Rightarrow> (if instanceof_ErrorNotFound e then Inr () else Inl e, s)
            | Inr n \<Rightarrow>
                (case find (\<lambda>i. item_name i = n) (items_of (owner_id ctx) s) of
                   None \<Rightarrow> (Inr (), s)
                 | Some it \<Rightarrow> (Inr (), Store_delete (item_id it) s))))"
  by (simp add: del_api_items_def assms itemFromPath_store try_catch_def await_def
      with_item_def throw_def resolve_def Let_def Store_ItemModel_sel
      split: sum.splits option.splits)

lemma wrap_fst:
  "fst (m s) = fst (m t) \<Longrightarrow>
   fst (await m (\<lambda>x. resolve (f x)) s) = fst (await m (\<lambda>x. resolve (f x)) t)"
  by (cases "m s"; cases "m t") (simp add: await_resolve split: sum.splits)

lemma wrap_snd:
  "snd (await m (\<lambda>x. resolve (f x)) s) = snd (m s)"
  by (cases "m s") (simp add: await_resolve split: sum.splits)

lemma get_item_isolated:
  assumes "models_item ctx = Store_ItemModel rp ao dd uuid"
    and "owner_view (owner_id ctx) s = owner_view (owner_id ctx) t"
  shows "fst (get_api_items path ctx s) = fst (get_api_items path ctx t)"
    and "snd (get_api_items path ctx s) = s"
proof -
  have i: "items_of (owner_id ctx) s = items_of (owner_id ctx) t"
    using assms(2) by (simp add: owner_view_def)
  show "fst (get_api_items path ctx s) = fst (get_api_items path ctx t)"
    by (simp add: get_item_store [OF assms(1)] i split: sum.splits option.splits)
  show "snd (get_api_items path ctx s) = s"
    by (simp add: get_item_store [OF assms(1)] split: sum.splits option.splits)
qed

lemma get_content_isolated:
  assumes "models_item ctx = Store_ItemModel rp ao dd uuid"
    and "unique_ids s" and "unique_ids t"
    and "owner_view (owner_id ctx) s = owner_view (owner_id ctx) t"
  shows "fst (get_api_items_content imps path ctx s)
           = fst (get_api_items_content imps path ctx t)"
    and "snd (get_api_items_content imps path ctx s) = s"
proof -
  have i: "items_of (owner_id ctx) s = items_of (owner_id ctx) t"
    using assms(4) by (simp add: owner_view_def)
  show "fst (get_api_items_content imps path ctx s)
           = fst (get_api_items_content imps path ctx t)"
    by (simp add: get_content_store [OF assms(1,2)] get_content_store [OF assms(1,3)] i
        split: sum.splits option.splits)
  show "snd (get_api_items_content imps path ctx s) = s"
    by (simp add: get_content_store [OF assms(1,2)] split: sum.splits option.splits)
qed

lemma delta_isolated:
  assumes "models_change ctx = Store_ChangeModel"
    and "owner_view (owner_id ctx) s = owner_view (owner_id ctx) t"
  shows "fst (get_api_items_delta imps path ctx s)
           = fst (get_api_items_delta imps path ctx t)"
    and "snd (get_api_items_delta imps path ctx s) = s"
proof -
  have c: "changes_of (owner_id ctx) s = changes_of (owner_id ctx) t"
    using assms(2) by (simp add: owner_view_def)
  show "fst (get_api_items_delta imps path ctx s)
           = fst (get_api_items_delta imps path ctx t)"
    by (simp add: delta_store [OF assms(1)] pageSince_same [OF c] split: sum.splits)
  show "snd (get_api_items_delta imps path ctx s) = s"
    by (simp add: delta_store [OF assms(1)] split: sum.splits)
qed

lemma children_isolated:
  assumes "models_item ctx = Store_ItemModel rp ao dd uuid"
    and "owner_view (owner_id ctx) s = owner_view (owner_id ctx) t"
  shows "fst (get_api_items_children imps path ctx s)
           = fst (get_api_items_children imps path ctx t)"
    and "snd (get_api_items_children imps path ctx s) = s"
proof -
  have i: "items_of (owner_id ctx) s = items_of (owner_id ctx) t"
    using assms(2) by (simp add: owner_view_def)
  show "fst (get_api_items_children imps path ctx s)
           = fst (get_api_items_children imps path ctx t)"
    by (simp add: children_store [OF assms(1)] listChildren_same [OF i] split: sum.splits)
  show "snd (get_api_items_children imps path ctx s) = s"
    by (simp add: children_store [OF assms(1)] split: sum.splits)
qed

lemma put_isolated:
  assumes "models_item ctx = Store_ItemModel rp ao dd uuid"
    and "owner_view (owner_id ctx) s = owner_view (owner_id ctx) t"
  shows "fst (put_api_items_content imps path ctx s)
           = fst (put_api_items_content imps path ctx t)"
    and "owner_view (owner_id ctx) (snd (put_api_items_content imps path ctx s))
           = owner_view (owner_id ctx) (snd (put_api_items_content imps path ctx t))"
    and "other \<noteq> owner_id ctx \<Longrightarrow>
         owner_view other (snd (put_api_items_content imps path ctx s)) = owner_view other s"
proof -
  let ?u = "owner_id ctx"
  consider (failed) e where "\<And>s. put_api_items_content imps path ctx s = (Inl e, s)"
    | (saved) n b where "\<And>s. put_api_items_content imps path ctx s =
             (Inr (ao (fst (Store_saveContent uuid ?u n b s))),
              snd (Store_saveContent uuid ?u n b s))"
    using put_store [OF assms(1), where path = path and imps = imps] by blast
  then have "fst (put_api_items_content imps path ctx s)
           = fst (put_api_items_content imps path ctx t)
    \<and> owner_view ?u (snd (put_api_items_content imps path ctx s))
           = owner_view ?u (snd (put_api_items_content imps path ctx t))
    \<and> (other \<noteq> ?u \<longrightarrow>
         owner_view other (snd (put_api_items_content imps path ctx s)) = owner_view other s)"
  proof cases
    case failed
    then show ?thesis using assms(2) by simp
  next
    case saved
    then show ?thesis
      using saveContent_same [OF assms(2), of uuid n b]
      by (simp add: saveContent_other)
  qed
  then show "fst (put_api_items_content imps path ctx s)
           = fst (put_api_items_content imps path ctx t)"
    and "owner_view ?u (snd (put_api_items_content imps path ctx s))
           = owner_view ?u (snd (put_api_items_content imps path ctx t))"
    and "other \<noteq> ?u \<Longrightarrow>
         owner_view other (snd (put_api_items_content imps path ctx s)) = owner_view other s"
    by simp_all
qed

lemma del_isolated:
  assumes "models_item ctx = Store_ItemModel rp ao dd uuid"
    and "unique_ids s" and "unique_ids t"
    and "owner_view (owner_id ctx) s = owner_view (owner_id ctx) t"
  shows "fst (del_api_items path ctx s) = fst (del_api_items path ctx t)"
    and "owner_view (owner_id ctx) (snd (del_api_items path ctx s))
           = owner_view (owner_id ctx) (snd (del_api_items path ctx t))"
    and "other \<noteq> owner_id ctx \<Longrightarrow>
         owner_view other (snd (del_api_items path ctx s)) = owner_view other s"
proof -
  let ?u = "owner_id ctx"
  have i: "items_of ?u s = items_of ?u t"
    using assms(4) by (simp add: owner_view_def)
  have owned: "owned_id ?u (item_id it) s \<and> owned_id ?u (item_id it) t"
    if "find Q (items_of ?u t) = Some it" for Q it
  proof -
    have t: "it \<in> set (items_table t)" "item_owner_id it = ?u"
      using that by (simp_all add: find_items_of_mem)
    have s: "it \<in> set (items_table s)"
      using that i [symmetric] by (simp add: find_items_of_mem)
    show ?thesis
      using unique_ids_owned [OF assms(2) s] unique_ids_owned [OF assms(3) t(1)] t(2) by simp
  qed
  show "fst (del_api_items path ctx s) = fst (del_api_items path ctx t)"
    by (simp add: del_store [OF assms(1)] i split: sum.splits option.splits)
  have "owner_view ?u (snd (del_api_items path ctx s))
           = owner_view ?u (snd (del_api_items path ctx t))
      \<and> (other \<noteq> ?u \<longrightarrow>
           owner_view other (snd (del_api_items path ctx s)) = owner_view other s)"
  proof (cases "path_id path = ''root'' \<or> path_id path = ''root:/:''")
    case True
    then show ?thesis
      using assms(4) deleteAll_same [OF assms(2,3,4)] deleteAll_other [OF assms(2), of other ?u]
      by (simp add: del_store [OF assms(1)])
  next
    case False
    show ?thesis
    proof (cases "rp (path_id path)")
      case (Inl e)
      then show ?thesis
        using False assms(4) by (simp add: del_store [OF assms(1)])
    next
      case (Inr n)
      show ?thesis
      proof (cases "find (\<lambda>i. item_name i = n) (items_of ?u t)")
        case None
        then show ?thesis
          using False Inr assms(4) by (simp add: del_store [OF assms(1)] i)
      next
        case (Some it)
        note o = owned [OF Some]
        have "owner_view ?u (Store_delete (item_id it) s)
              = owner_view ?u (Store_delete (item_id it) t)"
          using o assms(4) by (intro delete_same) simp_all
        moreover have "other \<noteq> ?u \<longrightarrow>
              owner_view other (Store_delete (item_id it) s) = owner_view other s"
          using o by (simp add: delete_other [of ?u])
        ultimately show ?thesis
          using False Inr Some by (simp add: del_store [OF assms(1)] i)
      qed
    qed
  qed
  then show "owner_view ?u (snd (del_api_items path ctx s))
           = owner_view ?u (snd (del_api_items path ctx t))"
    and "other \<noteq> ?u \<Longrightarrow>
         owner_view other (snd (del_api_items path ctx s)) = owner_view other s"
    by simp_all
qed

lemma wrap_isolated:
  assumes "fst (m s) = fst (m t)"
    and "owner_view u (snd (m s)) = owner_view u (snd (m t))"
    and "\<forall>other. other \<noteq> u \<longrightarrow> owner_view other (snd (m s)) = owner_view other s"
  shows "fst (await m (\<lambda>x. resolve (f x)) s) = fst (await m (\<lambda>x. resolve (f x)) t)
       \<and> owner_view u (snd (await m (\<lambda>x. resolve (f x)) s))
           = owner_view u (snd (await m (\<lambda>x. resolve (f x)) t))
       \<and> (\<forall>other. other \<noteq> u \<longrightarrow>
             owner_view other (snd (await m (\<lambda>x. resolve (f x)) s)) = owner_view other s)"
  using assms(2,3) wrap_fst [OF assms(1), of f] by (simp add: wrap_snd)

lemma unique_ids_delete: "unique_ids s \<Longrightarrow> unique_ids (Store_delete iid s)"
  by (simp add: unique_ids_def Store_delete_def ChangeLog_append_def distinct_map_filter
      split: option.splits)

lemma unique_ids_fold_delete:
  "unique_ids s \<Longrightarrow> unique_ids (fold (\<lambda>item acc. Store_delete (item_id item) acc) xs s)"
  by (induction xs arbitrary: s) (simp_all add: unique_ids_delete)

lemma unique_ids_deleteAll: "unique_ids s \<Longrightarrow> unique_ids (Store_deleteAll u s)"
  by (simp add: Store_deleteAll_def unique_ids_fold_delete)

lemma map_item_id_update:
  "map item_id (map (\<lambda>i. if P i then i\<lparr>item_content := b\<rparr> else i) xs) = map item_id xs"
  by (induction xs) simp_all

lemma unique_ids_saveContent:
  assumes "unique_ids s" and "uuid \<notin> item_id ` set (items_table s)"
  shows "unique_ids (snd (Store_saveContent uuid u n b s))"
proof (cases "Store_loadByName u n s")
  case None
  then show ?thesis
    using assms by (simp add: Store_saveContent_def Let_def unique_ids_def)
next
  case (Some old)
  have "map item_id (map (\<lambda>i. if item_owner_id i = u \<and> item_name i = n
                             then i\<lparr>item_content := b\<rparr> else i) (items_table s))
        = map item_id (items_table s)"
    by (rule map_item_id_update)
  then show ?thesis
    using Some assms(1)
    by (simp add: Store_saveContent_def Let_def unique_ids_def del: map_map)
qed

lemma unique_ids_execRequest:
  assumes "models_item ctx = Store_ItemModel rp ao dd uuid"
    and "models_change ctx = Store_ChangeModel"
    and "unique_ids s" and "uuid \<notin> item_id ` set (items_table s)"
  shows "unique_ids (snd (execRequest imps route path ctx s))"
proof (cases route)
  case GET_item
  then show ?thesis
    using assms(3) get_item_isolated(2) [OF assms(1) refl, where path = path]
    by (simp add: execRequest_def wrap_snd)
next
  case DEL_item
  then show ?thesis
    using assms(3)
    by (simp add: execRequest_def wrap_snd del_store [OF assms(1)] unique_ids_delete
        unique_ids_deleteAll split: sum.splits option.splits)
next
  case GET_item_content
  then show ?thesis
    using assms(3) get_content_isolated(2) [OF assms(1) assms(3) assms(3) refl, where path = path and imps = imps]
    by (simp add: execRequest_def wrap_snd)
next
  case PUT_item_content
  consider (failed) e where "\<And>s. put_api_items_content imps path ctx s = (Inl e, s)"
    | (saved) n b where "\<And>s. put_api_items_content imps path ctx s =
             (Inr (ao (fst (Store_saveContent uuid (owner_id ctx) n b s))),
              snd (Store_saveContent uuid (owner_id ctx) n b s))"
    using put_store [OF assms(1), where path = path and imps = imps] by blast
  then have "unique_ids (snd (put_api_items_content imps path ctx s))"
  proof cases
    case failed
    then show ?thesis using assms(3) by simp
  next
    case saved
    then show ?thesis using assms(3,4) by (simp add: unique_ids_saveContent)
  qed
  then show ?thesis
    using PUT_item_content by (simp add: execRequest_def wrap_snd)
next
  case GET_item_delta
  then show ?thesis
    using assms(3) delta_isolated(2) [OF assms(2) refl, where path = path and imps = imps]
    by (simp add: execRequest_def wrap_snd)
next
  case GET_item_children
  then show ?thesis
    using assms(3) children_isolated(2) [OF assms(1) refl, where path = path and imps = imps]
    by (simp add: execRequest_def wrap_snd)
qed

subsection \<open>The calls the routes make\<close>

lemma itemFromPath_scoped:
  assumes "pathToName im' = pathToName im" and "loadByName im' u = loadByName im u"
  shows "itemFromPath u im' path mustExists s = itemFromPath u im path mustExists s"
  by (simp add: itemFromPath_eq assms cong: sum.case_cong)

lemma itemFromPath_Some:
  "itemFromPath u im path True s = (Inr (Some item), s') \<Longrightarrow>
   s' = s \<and> (\<exists>name. loadByName im u name s = Inr (Some item))"
  by (auto simp add: itemFromPath_eq split: sum.splits if_splits)

lemma routes_use_scoped_calls:
  assumes "scoped_agree (owner_id ctx) s (models_item ctx) im' (models_change ctx) cm'"
  shows "execRequest imps route path (ctx\<lparr>models_item := im', models_change := cm'\<rparr>) s
         = execRequest imps route path ctx s"
proof -
  let ?u = "owner_id ctx"
  let ?im = "models_item ctx"
  let ?ctx' = "ctx\<lparr>models_item := im', models_change := cm'\<rparr>"
  have a: "pathToName im' = pathToName ?im" "toApiOutput im' = toApiOutput ?im"
    "loadByName im' ?u = loadByName ?im ?u" "deleteAll im' ?u = deleteAll ?im ?u"
    "saveFromRawContent im' ?u = saveFromRawContent ?im ?u"
    "children im' ?u = children ?im ?u"
    "allForUser cm' ?u = allForUser (models_change ctx) ?u"
    using assms by (simp_all add: scoped_agree_def)
  have ids: "delete im' (item_id item) s = delete ?im (item_id item) s
           \<and> serializedContent im' (item_id item) s = serializedContent ?im (item_id item) s"
    if "itemFromPath ?u ?im path True s = (Inr (Some item), s')" for item s'
    using assms itemFromPath_Some [OF that] by (auto simp add: scoped_agree_def)
  have ifp: "itemFromPath ?u im' path True s = itemFromPath ?u ?im path True s"
    by (rule itemFromPath_scoped [OF a(1,3)])
  have st: "snd (itemFromPath ?u ?im path True s) = s"
    by (simp add: itemFromPath_eq split: sum.splits)
  have get: "get_api_items path ?ctx' s = get_api_items path ctx s"
    by (simp add: get_api_items_def Let_def await_def ifp a(2))
  have content: "get_api_items_content imps path ?ctx' s = get_api_items_content imps path ctx s"
  proof (cases "itemFromPath ?u ?im path True s")
    case (Pair r s')
    then have s': "s' = s" using st by simp
    show ?thesis
    proof (cases r)
      case (Inl e)
      then show ?thesis
        using Pair by (simp add: get_api_items_content_def Let_def await_def ifp)
    next
      case (Inr item)
      then show ?thesis
      proof (cases item)
        case None
        then show ?thesis
          using Pair Inr
          by (simp add: get_api_items_content_def Let_def await_def ifp with_item_def)
      next
        case (Some it)
        then show ?thesis
          using Pair Inr s' ids [of it s']
          by (simp add: get_api_items_content_def Let_def await_def ifp with_item_def
              reading_def)
      qed
    qed
  qed
  have del: "del_api_items path ?ctx' s = del_api_items path ctx s"
  proof (cases "itemFromPath ?u ?im path True s")
    case (Pair r s')
    then have s': "s' = s" using st by simp
    show ?thesis
    proof (cases r)
      case (Inl e)
      then show ?thesis
        using Pair by (simp add: del_api_items_def Let_def await_def try_catch_def ifp a(4))
    next
      case (Inr item)
      then show ?thesis
      proof (cases item)
        case None
        then show ?thesis
          using Pair Inr
          by (simp add: del_api_items_def Let_def await_def try_catch_def ifp a(4)
              with_item_def)
      next
        case (Some it)
        then show ?thesis
          using Pair Inr s' ids [of it s']
          by (simp add: del_api_items_def Let_def await_def try_catch_def ifp a(4)
              with_item_def)
      qed
    qed
  qed
  have put: "put_api_items_content imps path ?ctx' s = put_api_items_content imps path ctx s"
    by (simp add: put_api_items_content_def Let_def a)
  have delta: "get_api_items_delta imps path ?ctx' s = get_api_items_delta imps path ctx s"
    by (simp add: get_api_items_delta_def Let_def a)
  have chi: "get_api_items_children imps path ?ctx' s = get_api_items_children imps path ctx s"
    by (simp add: get_api_items_children_def Let_def a)
  show ?thesis
    by (cases route) (simp_all add: execRequest_def await_def get content del put delta chi)
qed

text \<open>
  C6 (amended): a request of any of the six routes reads and changes only what belongs
  to the caller. The routes reach the storage only through calls scoped to the caller:
  calls that take the caller's owner id, and \<^verbatim>\<open>delete\<close> and \<^verbatim>\<open>serializedContent\<close>,
  which take the id of an item loaded under the caller's owner id; any implementation of
  the models that agrees with the store on these calls gives the same outcome. Over the
  store in which item identifiers are unique: on two stores that agree on the caller's
  items and ChangeEvents, whatever the other owners have there, the request returns the
  same result and leaves the same items and ChangeEvents for the caller; the items and
  ChangeEvents of every other owner are left as they were; and identifiers stay unique
  when the identifier drawn for a new item is fresh.
\<close>

theorem requests_isolated:
  assumes "models_item ctx = Store_ItemModel resolvePath apiOutput directDescendant uuid"
    and "models_change ctx = Store_ChangeModel"
    and "unique_ids s" and "unique_ids t"
    and "owner_view (owner_id ctx) s = owner_view (owner_id ctx) t"
  shows "fst (execRequest imports route path ctx s) = fst (execRequest imports route path ctx t)
       \<and> owner_view (owner_id ctx) (snd (execRequest imports route path ctx s))
           = owner_view (owner_id ctx) (snd (execRequest imports route path ctx t))
       \<and> (\<forall>other. other \<noteq> owner_id ctx \<longrightarrow>
             owner_view other (snd (execRequest imports route path ctx s)) = owner_view other s)
       \<and> (uuid \<notin> item_id ` set (items_table s) \<longrightarrow>
             unique_ids (snd (execRequest imports route path ctx s)))
       \<and> (\<forall>im' cm'.
             scoped_agree (owner_id ctx) s (models_item ctx) im' (models_change ctx) cm' \<longrightarrow>
             execRequest imports route path (ctx\<lparr>models_item := im', models_change := cm'\<rparr>) s
               = execRequest imports route path ctx s)"
proof -
  have scoped: "\<forall>im' cm'.
             scoped_agree (owner_id ctx) s (models_item ctx) im' (models_change ctx) cm' \<longrightarrow>
             execRequest imports route path (ctx\<lparr>models_item := im', models_change := cm'\<rparr>) s
               = execRequest imports route path ctx s"
    by (simp add: routes_use_scoped_calls)
  have inv: "uuid \<notin> item_id ` set (items_table s) \<longrightarrow>
             unique_ids (snd (execRequest imports route path ctx s))"
    using unique_ids_execRequest [OF assms(1,2,3)] by blast
  have "fst (execRequest imports route path ctx s) = fst (execRequest imports route path ctx t)
       \<and> owner_view (owner_id ctx) (snd (execRequest imports route path ctx s))
           = owner_view (owner_id ctx) (snd (execRequest imports route path ctx t))
       \<and> (\<forall>other. other \<noteq> owner_id ctx \<longrightarrow>
             owner_view other (snd (execRequest imports route path ctx s)) = owner_view other s)"
  proof (cases route)
    case GET_item
    have "snd (get_api_items path ctx t) = t"
      by (rule get_item_isolated(2) [OF assms(1) refl])
    then show ?thesis
      unfolding GET_item execRequest_def Route.case
      using get_item_isolated [OF assms(1,5), where path = path] assms(5)
      by (intro wrap_isolated) simp_all
  next
    case DEL_item
    show ?thesis
      unfolding DEL_item execRequest_def Route.case
      using del_isolated [OF assms(1,3,4,5), where path = path]
      by (intro wrap_isolated) simp_all
  next
    case GET_item_content
    have "snd (get_api_items_content imports path ctx t) = t"
      by (rule get_content_isolated(2) [OF assms(1) assms(4) assms(4) refl])
    then show ?thesis
      unfolding GET_item_content execRequest_def Route.case
      using get_content_isolated [OF assms(1,3,4,5), where path = path and imps = "imports"] assms(5)
      by (intro wrap_isolated) simp_all
  next
    case PUT_item_content
    show ?thesis
      unfolding PUT_item_content execRequest_def Route.case
      using put_isolated [OF assms(1,5), where path = path and imps = "imports"]
      by (intro wrap_isolated) simp_all
  next
    case GET_item_delta
    have "snd (get_api_items_delta imports path ctx t) = t"
      by (rule delta_isolated(2) [OF assms(2) refl])
    then show ?thesis
      unfolding GET_item_delta execRequest_def Route.case
      using delta_isolated [OF assms(2,5), where path = path and imps = "imports"] assms(5)
      by (intro wrap_isolated) simp_all
  next
    case GET_item_children
    have "snd (get_api_items_children imports path ctx t) = t"
      by (rule children_isolated(2) [OF assms(1) refl])
    then show ?thesis
      unfolding GET_item_children execRequest_def Route.case
      using children_isolated [OF assms(1,5), where path = path and imps = "imports"] assms(5)
      by (intro wrap_isolated) simp_all
  qed
  with inv scoped show ?thesis by blast
qed

theorem requests_isolated_witness:
  "fst (execRequest example_imports DEL_item \<lparr>path_id = ''notes/x''\<rparr> (example_ctx ''prod'')
          example_store) = Inr NoContent
   \<and> items_of 1 (snd (execRequest example_imports DEL_item \<lparr>path_id = ''notes/x''\<rparr>
                        (example_ctx ''prod'') example_store)) = []
   \<and> fst (execRequest example_imports DEL_item \<lparr>path_id = ''notes/x''\<rparr>
            (example_ctx ''prod'') example_store)
     = fst (execRequest example_imports DEL_item \<lparr>path_id = ''notes/x''\<rparr>
              (example_ctx ''prod'') example_store_other)
   \<and> owner_view 1 (snd (execRequest example_imports DEL_item \<lparr>path_id = ''notes/x''\<rparr>
                          (example_ctx ''prod'') example_store))
     = owner_view 1 (snd (execRequest example_imports DEL_item \<lparr>path_id = ''notes/x''\<rparr>
                            (example_ctx ''prod'') example_store_other))
   \<and> owner_view 2 (snd (execRequest example_imports DEL_item \<lparr>path_id = ''notes/x''\<rparr>
                          (example_ctx ''prod'') example_store))
     = owner_view 2 example_store"
proof -
  have u: "unique_ids example_store" "unique_ids example_store_other"
    by (simp_all add: unique_ids_def example_store_def example_store_other_def)
  have v: "owner_view (owner_id (example_ctx ''prod'')) example_store
           = owner_view (owner_id (example_ctx ''prod'')) example_store_other"
    by (simp add: example_models owner_view_def items_of_def changes_of_def example_store_def
        example_store_other_def)
  have r: "execRequest example_imports DEL_item \<lparr>path_id = ''notes/x''\<rparr>
             (example_ctx ''prod'') example_store
           = (Inr NoContent, Store_delete 10 example_store)"
    by (simp add: execRequest_def await_resolve del_store [OF example_models(1)]
        example_models(3) items_of_def example_store_def)
  have d: "items_of 1 (Store_delete 10 example_store) = []"
    by (simp add: items_of_delete) (simp add: items_of_def example_store_def)
  have "(2::nat) \<noteq> owner_id (example_ctx ''prod'')"
    by (simp add: example_models)
  then show ?thesis
    using requests_isolated [OF example_models(1,2) u v,
        where path = "\<lparr>path_id = ''notes/x''\<rparr>" and route = DEL_item
          and ?imports = example_imports] d
    by (simp add: example_models(3) r)
qed

text \<open>
  C6 as stated says that every storage call takes the caller's owner id. Were that so, two
  implementations of the models with the same methods taking an owner id (and the same
  pure helpers) would give every request the same outcome. The DELETE route calls
  \<^verbatim>\<open>delete\<close> with \<^verbatim>\<open>item.id\<close> alone: with an implementation that differs in
  \<^verbatim>\<open>delete\<close> only, the same DELETE of \<open>notes/x\<close> by owner 1 fails where it succeeded.
\<close>

theorem storage_calls_owner_scoped_counterexample:
  "pathToName (example_ItemModel\<lparr>delete := (\<lambda>_. throw (ErrorOther ''database is locked''))\<rparr>)
     = pathToName example_ItemModel
   \<and> toApiOutput (example_ItemModel\<lparr>delete := (\<lambda>_. throw (ErrorOther ''database is locked''))\<rparr>)
     = toApiOutput example_ItemModel
   \<and> loadByName (example_ItemModel\<lparr>delete := (\<lambda>_. throw (ErrorOther ''database is locked''))\<rparr>)
     = loadByName example_ItemModel
   \<and> deleteAll (example_ItemModel\<lparr>delete := (\<lambda>_. throw (ErrorOther ''database is locked''))\<rparr>)
     = deleteAll example_ItemModel
   \<and> saveFromRawContent
       (example_ItemModel\<lparr>delete := (\<lambda>_. throw (ErrorOther ''database is locked''))\<rparr>)
     = saveFromRawContent example_ItemModel
   \<and> children (example_ItemModel\<lparr>delete := (\<lambda>_. throw (ErrorOther ''database is locked''))\<rparr>)
     = children example_ItemModel
   \<and> execRequest example_imports DEL_item \<lparr>path_id = ''notes/x''\<rparr>
       ((example_ctx ''prod'')\<lparr>models_item :=
          example_ItemModel\<lparr>delete := (\<lambda>_. throw (ErrorOther ''database is locked''))\<rparr>\<rparr>)
       example_store
     = (Inl (ErrorOther ''database is locked''), example_store)
   \<and> execRequest example_imports DEL_item \<lparr>path_id = ''notes/x''\<rparr> (example_ctx ''prod'')
       example_store
     = (Inr NoContent, Store_delete 10 example_store)"
  by (simp add: execRequest_def await_resolve del_api_items_def try_catch_def await_def
      itemFromPath_eq with_item_def throw_def resolve_def Let_def example_simps)

end
